theory Spec2Isabelle
  imports Complex_Main
begin

section \<open>Data model (core/database.py)\<close>

text \<open>
  Instants are counted in whole seconds on one fixed clock; \<open>date_of\<close> is Python's
  \<open>datetime.date()\<close>, \<open>hour_of\<close> is SQL's \<open>extract('hour', ...)\<close> and the difference of
  two instants is their \<open>total_seconds()\<close>. A Python float is the real number it
  denotes (no NaN, no infinity); floats are compared exactly, and the rounded sum of two
  floats, Python's \<open>+\<close> and \<open>+=\<close> on them, is a parameter \<open>float_add\<close> of every
  function that adds distances, so that what is proved holds for every rounding.
  A geography point is a pair of coordinates; PostGIS's \<open>ST_Distance\<close> (metres) is a
  parameter \<open>st_distance\<close> of every function that calls it.
\<close>

type_synonym datetime = int
type_synonym geography = "real \<times> real"

definition date_of :: "datetime \<Rightarrow> int" where
  "date_of t = t div 86400"

definition hour_of :: "datetime \<Rightarrow> int" where
  "hour_of t = (t div 3600) mod 24"

record VisitModel =
  place_id :: "string option"
  location :: "geography option"

record ActivityModel =
  start_location :: "geography option"
  distance_meters :: "real option"
  activity_type :: "string option"

record TimelineMemoryModel =
  distance_from_origin_kms :: "int option"
  destination_place_ids :: "string list option"

text \<open>A row of \<open>timeline_segments\<close> with the rows its three one-to-one relationships load.\<close>

record TimelineSegment =
  seg_id :: int
  segment_type :: string
  start_time :: datetime
  end_time :: datetime
  visit :: "VisitModel option"
  activity :: "ActivityModel option"
  timeline_memory :: "TimelineMemoryModel option"

record UserProfileModel =
  home_place_id :: "string option"
  home_location :: "geography option"

record TripModel =
  trip_id :: int
  trip_start_time :: datetime
  trip_end_time :: datetime
  is_multi_day :: bool
  total_distance_meters :: real
  primary_transport_mode :: "string option"
  detection_algorithm :: string

text \<open>\<open>trip_destinations\<close>: primary key \<open>(trip_id, place_id)\<close>, \<open>place_id\<close> a foreign key
  into \<open>places\<close>. \<open>trip_segments\<close>: primary key \<open>(trip_id, segment_id)\<close>.\<close>

record TripDestinationModel =
  dest_trip_id :: int
  dest_place_id :: string
  visit_order :: nat

record TripSegmentModel =
  link_trip_id :: int
  link_segment_id :: int
  segment_order :: nat

text \<open>What the detectors read and never write: the segment table (in stored order), the
  first row of \<open>user_profile\<close> if there is one, and the keys of the \<open>places\<close> table.\<close>

record repository =
  timeline_segments :: "TimelineSegment list"
  user_profile :: "UserProfileModel option"
  places :: "string list"

section \<open>The session (SessionLocal: autoflush off)\<close>

datatype db_error = IntegrityError

datatype orm_object = Dest TripDestinationModel | Link TripSegmentModel

text \<open>The three trip tables as the open transaction sees them, the sequence behind
  \<open>trips.id\<close>, and the objects added to the session but not yet flushed.\<close>

record session =
  trips :: "TripModel list"
  trip_destinations :: "TripDestinationModel list"
  trip_segments :: "TripSegmentModel list"
  trips_id_seq :: int
  new_objects :: "orm_object list"

definition empty_session :: session where
  "empty_session = \<lparr>trips = [], trip_destinations = [], trip_segments = [],
     trips_id_seq = 0, new_objects = []\<rparr>"

text \<open>One INSERT: a second row with the same primary key, or a destination whose place
  is not in \<open>places\<close>, is refused by the database. The foreign keys into \<open>trips\<close>
  and \<open>timeline_segments\<close> hold for every row the detectors add (the trip row was just
  inserted, the segment was just read) and are not checked again.\<close>

fun insert_object :: "string list \<Rightarrow> orm_object \<Rightarrow> session \<Rightarrow> db_error + session" where
  "insert_object pl (Dest d) s =
     (if list_ex (\<lambda>r. dest_trip_id r = dest_trip_id d \<and> dest_place_id r = dest_place_id d)
           (trip_destinations s)
      then Inl IntegrityError
      else if dest_place_id d \<notin> set pl then Inl IntegrityError
      else Inr (s\<lparr>trip_destinations := trip_destinations s @ [d]\<rparr>))"
| "insert_object pl (Link l) s =
     (if list_ex (\<lambda>r. link_trip_id r = link_trip_id l \<and> link_segment_id r = link_segment_id l)
           (trip_segments s)
      then Inl IntegrityError
      else Inr (s\<lparr>trip_segments := trip_segments s @ [l]\<rparr>))"

fun flush_objects :: "string list \<Rightarrow> orm_object list \<Rightarrow> session \<Rightarrow> db_error + session" where
  "flush_objects pl [] s = Inr s"
| "flush_objects pl (ob # obs) s =
     (case insert_object pl ob s of
        Inl e \<Rightarrow> Inl e
      | Inr s' \<Rightarrow> flush_objects pl obs s')"

definition flush :: "string list \<Rightarrow> session \<Rightarrow> db_error + session" where
  "flush pl s = flush_objects pl (new_objects s) (s\<lparr>new_objects := []\<rparr>)"

text \<open>\<open>db.commit()\<close> flushes what is pending; an error leaves the transaction uncommitted.\<close>

definition commit :: "string list \<Rightarrow> session \<Rightarrow> db_error + session" where
  "commit pl s = flush pl s"

definition add_all :: "orm_object list \<Rightarrow> session \<Rightarrow> session" where
  "add_all obs s = s\<lparr>new_objects := new_objects s @ obs\<rparr>"

text \<open>\<open>db.add(trip); db.flush()\<close>: the trip row takes the next value of the sequence and
  everything pending goes to the database with it.\<close>

definition add_trip_and_flush :: "string list \<Rightarrow> TripModel \<Rightarrow> session \<Rightarrow> db_error + (int \<times> session)" where
  "add_trip_and_flush pl trip s =
     (let tid = trips_id_seq s + 1 in
      case flush pl (s\<lparr>trips := trips s @ [trip\<lparr>trip_id := tid\<rparr>], trips_id_seq := tid\<rparr>) of
        Inl e \<Rightarrow> Inl e
      | Inr s' \<Rightarrow> Inr (tid, s'))"

text \<open>\<open>db.query(TripModel).filter(start_time == .., end_time == .., detection_algorithm == ..).first()\<close>\<close>

definition find_existing :: "datetime \<Rightarrow> datetime \<Rightarrow> string \<Rightarrow> session \<Rightarrow> TripModel option" where
  "find_existing st en alg s =
     find (\<lambda>t. trip_start_time t = st \<and> trip_end_time t = en \<and> detection_algorithm t = alg) (trips s)"

section \<open>The trip materializer (TripDetector._create_trip)\<close>

text \<open>Python's \<open>x or 0\<close> on an optional number.\<close>

definition or0 :: "real option \<Rightarrow> real" where
  "or0 x = (case x of None \<Rightarrow> 0 | Some d \<Rightarrow> d)"

text \<open>\<open>mode_distances[mode] += dist\<close> on a \<open>defaultdict(float)\<close>: a dict keeps its keys in
  insertion order, so it is an association list updated in place; a new key starts from
  the default \<open>0.0\<close>.\<close>

fun add_mode_distance :: "(real \<Rightarrow> real \<Rightarrow> real) \<Rightarrow> string option \<Rightarrow> real \<Rightarrow> (string option \<times> real) list \<Rightarrow> (string option \<times> real) list" where
  "add_mode_distance float_add m d [] = [(m, float_add 0 d)]"
| "add_mode_distance float_add m d ((k, v) # kvs) =
     (if k = m then (k, float_add v d) # kvs else (k, v) # add_mode_distance float_add m d kvs)"

fun mode_distances_of :: "(real \<Rightarrow> real \<Rightarrow> real) \<Rightarrow> TimelineSegment list \<Rightarrow> (string option \<times> real) list \<Rightarrow> (string option \<times> real) list" where
  "mode_distances_of float_add [] md = md"
| "mode_distances_of float_add (segment # rest) md =
     (case activity segment of
        None \<Rightarrow> mode_distances_of float_add rest md
      | Some a \<Rightarrow>
          mode_distances_of float_add rest (add_mode_distance float_add (activity_type a) (or0 (distance_meters a)) md))"

text \<open>Python's \<open>max(items, key=...)\<close>: the running best is replaced only by a strictly
  larger key, so the first of several maxima is returned.\<close>

fun py_max_by :: "('a \<Rightarrow> real) \<Rightarrow> 'a \<Rightarrow> 'a list \<Rightarrow> 'a" where
  "py_max_by key best [] = best"
| "py_max_by key best (x # xs) =
     (if key x > key best then py_max_by key x xs else py_max_by key best xs)"

definition primary_mode_of :: "(real \<Rightarrow> real \<Rightarrow> real) \<Rightarrow> TimelineSegment list \<Rightarrow> string option" where
  "primary_mode_of float_add segs =
     (case mode_distances_of float_add segs [] of
        [] \<Rightarrow> None
      | item # items \<Rightarrow> fst (py_max_by snd item items))"

fun enumerate_from :: "nat \<Rightarrow> 'a list \<Rightarrow> (nat \<times> 'a) list" where
  "enumerate_from n [] = []"
| "enumerate_from n (x # xs) = (n, x) # enumerate_from (Suc n) xs"

definition destination_rows :: "int \<Rightarrow> string list \<Rightarrow> orm_object list" where
  "destination_rows tid destinations =
     map (\<lambda>(idx, p). Dest \<lparr>dest_trip_id = tid, dest_place_id = p, visit_order = idx\<rparr>)
       (enumerate_from 0 destinations)"

definition segment_rows :: "int \<Rightarrow> TimelineSegment list \<Rightarrow> orm_object list" where
  "segment_rows tid segs =
     map (\<lambda>(idx, g). Link \<lparr>link_trip_id = tid, link_segment_id = seg_id g, segment_order = idx\<rparr>)
       (enumerate_from 0 segs)"

definition create_trip ::
  "(real \<Rightarrow> real \<Rightarrow> real) \<Rightarrow> string list \<Rightarrow> datetime \<Rightarrow> datetime \<Rightarrow> TimelineSegment list \<Rightarrow> real \<Rightarrow> string list \<Rightarrow> string
     \<Rightarrow> session \<Rightarrow> db_error + session" where
  "create_trip float_add pl start_t end_t segs dist_m destinations algorithm s =
     (case find_existing start_t end_t algorithm s of
        Some existing \<Rightarrow> Inr s
      | None \<Rightarrow>
          (case add_trip_and_flush pl
                  \<lparr>trip_id = 0, trip_start_time = start_t, trip_end_time = end_t,
                   is_multi_day = (date_of end_t > date_of start_t),
                   total_distance_meters = dist_m,
                   primary_transport_mode = primary_mode_of float_add segs,
                   detection_algorithm = algorithm\<rparr> s of
             Inl e \<Rightarrow> Inl e
           | Inr (tid, s') \<Rightarrow>
               Inr (add_all (destination_rows tid destinations @ segment_rows tid segs) s')))"

section \<open>Queries and loops\<close>

text \<open>A \<open>for\<close> loop whose body may raise: the first error ends the loop.\<close>

fun for_each :: "('x \<Rightarrow> 'st \<Rightarrow> db_error + 'st) \<Rightarrow> 'x list \<Rightarrow> 'st \<Rightarrow> db_error + 'st" where
  "for_each body [] st = Inr st"
| "for_each body (x # xs) st =
     (case body x st of
        Inl e \<Rightarrow> Inl e
      | Inr st' \<Rightarrow> for_each body xs st')"

text \<open>The optional date filters every detector applies to its query.\<close>

definition in_range :: "datetime option \<Rightarrow> datetime option \<Rightarrow> TimelineSegment \<Rightarrow> bool" where
  "in_range start_date end_date g =
     ((case start_date of None \<Rightarrow> True | Some d \<Rightarrow> start_time g \<ge> d) \<and>
      (case end_date of None \<Rightarrow> True | Some d \<Rightarrow> end_time g \<le> d))"

text \<open>Truth value of an optional string in Python: \<open>None\<close> and \<open>""\<close> are false.\<close>

definition truthy :: "string option \<Rightarrow> bool" where
  "truthy p = (case p of None \<Rightarrow> False | Some x \<Rightarrow> x \<noteq> [])"

text \<open>\<open>not profile or (not profile.home_place_id and not profile.home_location)\<close>\<close>

definition no_home :: "UserProfileModel option \<Rightarrow> bool" where
  "no_home profile =
     (case profile of
        None \<Rightarrow> True
      | Some p \<Rightarrow> \<not> truthy (home_place_id p) \<and> home_location p = None)"

definition use_distance_based :: "UserProfileModel \<Rightarrow> bool" where
  "use_distance_based p = (home_place_id p = None \<and> home_location p \<noteq> None)"

text \<open>A Python \<open>set\<close> of strings is kept as the list of its elements in insertion order;
  the order in which \<open>list(a_set)\<close> yields them depends on the hashes of the run and is a
  parameter \<open>iter\<close> of the detectors.\<close>

definition set_add :: "'a \<Rightarrow> 'a list \<Rightarrow> 'a list" where
  "set_add x xs = (if x \<in> set xs then xs else xs @ [x])"

definition set_of_list :: "'a list \<Rightarrow> 'a list" where
  "set_of_list xs = fold set_add xs []"

section \<open>Memory-replay detector (detect_timeline_memory_trips)\<close>

definition memory_query ::
  "repository \<Rightarrow> datetime option \<Rightarrow> datetime option \<Rightarrow> (TimelineMemoryModel \<times> TimelineSegment) list" where
  "memory_query rp start_date end_date =
     List.map_filter (\<lambda>g. map_option (\<lambda>m. (m, g)) (timeline_memory g))
       (filter (in_range start_date end_date) (timeline_segments rp))"

definition memory_body ::
  "string list \<Rightarrow> TimelineMemoryModel \<times> TimelineSegment \<Rightarrow> nat \<times> session \<Rightarrow> db_error + nat \<times> session" where
  "memory_body pl mg st =
     (case (mg, st) of ((memory, segment), (trip_count, s)) \<Rightarrow>
        (case find_existing (start_time segment) (end_time segment) ''timeline_memory'' s of
           Some existing \<Rightarrow> Inr (trip_count, s)
         | None \<Rightarrow>
             (case add_trip_and_flush pl
                     \<lparr>trip_id = 0, trip_start_time = start_time segment,
                      trip_end_time = end_time segment,
                      is_multi_day = (date_of (end_time segment) > date_of (start_time segment)),
                      total_distance_meters =
                        real_of_int ((case distance_from_origin_kms memory of None \<Rightarrow> 0 | Some k \<Rightarrow> k) * 1000),
                      primary_transport_mode = None,
                      detection_algorithm = ''timeline_memory''\<rparr> s of
                Inl e \<Rightarrow> Inl e
              | Inr (tid, s') \<Rightarrow>
                  Inr (trip_count + 1,
                       add_all
                         (destination_rows tid
                            (case destination_place_ids memory of None \<Rightarrow> [] | Some ds \<Rightarrow> ds) @
                          [Link \<lparr>link_trip_id = tid, link_segment_id = seg_id segment, segment_order = 0\<rparr>])
                         s'))))"

definition commit_count :: "string list \<Rightarrow> nat \<Rightarrow> session \<Rightarrow> db_error + nat \<times> session" where
  "commit_count pl trip_count s =
     (case commit pl s of Inl e \<Rightarrow> Inl e | Inr s' \<Rightarrow> Inr (trip_count, s'))"

definition detect_timeline_memory_trips ::
  "repository \<Rightarrow> datetime option \<Rightarrow> datetime option \<Rightarrow> session \<Rightarrow> db_error + nat \<times> session" where
  "detect_timeline_memory_trips rp start_date end_date s =
     (case for_each (memory_body (places rp)) (memory_query rp start_date end_date) (0, s) of
        Inl e \<Rightarrow> Inl e
      | Inr (trip_count, s') \<Rightarrow> commit_count (places rp) trip_count s')"

section \<open>Home-based segmenter (detect_home_based_trips)\<close>

definition is_home :: "(geography \<Rightarrow> geography \<Rightarrow> real) \<Rightarrow> UserProfileModel \<Rightarrow> TimelineSegment \<Rightarrow> bool" where
  "is_home st_distance profile segment =
     (case visit segment of
        None \<Rightarrow> False
      | Some v \<Rightarrow>
          if use_distance_based profile \<and> location v \<noteq> None \<and> home_location profile \<noteq> None
          then (let distance = st_distance (the (home_location profile)) (the (location v))
                in distance \<noteq> 0 \<and> distance / 1000 < 1)
          else if truthy (home_place_id profile) then place_id v = home_place_id profile
          else False)"

record home_acc =
  current_trip_segments :: "TimelineSegment list"
  current_trip_distance :: real
  current_trip_destinations :: "string list"
  home_trip_count :: nat

definition home_init :: home_acc where
  "home_init = \<lparr>current_trip_segments = [], current_trip_distance = 0,
     current_trip_destinations = [], home_trip_count = 0\<rparr>"

definition home_reset :: "home_acc \<Rightarrow> home_acc" where
  "home_reset acc = acc\<lparr>current_trip_segments := [], current_trip_distance := 0,
     current_trip_destinations := []\<rparr>"

definition home_append :: "(real \<Rightarrow> real \<Rightarrow> real) \<Rightarrow> TimelineSegment \<Rightarrow> home_acc \<Rightarrow> home_acc" where
  "home_append float_add segment acc =
     acc\<lparr>current_trip_segments := current_trip_segments acc @ [segment],
         current_trip_distance :=
           (case activity segment of
              None \<Rightarrow> current_trip_distance acc
            | Some a \<Rightarrow> float_add (current_trip_distance acc) (or0 (distance_meters a))),
         current_trip_destinations :=
           (case visit segment of
              None \<Rightarrow> current_trip_destinations acc
            | Some v \<Rightarrow>
                if truthy (place_id v) then set_add (the (place_id v)) (current_trip_destinations acc)
                else current_trip_destinations acc)\<rparr>"

definition home_body ::
  "(real \<Rightarrow> real \<Rightarrow> real) \<Rightarrow> (geography \<Rightarrow> geography \<Rightarrow> real) \<Rightarrow> (string list \<Rightarrow> string list) \<Rightarrow> string list \<Rightarrow> UserProfileModel
     \<Rightarrow> real \<Rightarrow> real \<Rightarrow> TimelineSegment \<Rightarrow> home_acc \<times> session \<Rightarrow> db_error + home_acc \<times> session" where
  "home_body float_add st_distance iter pl profile min_distance_km min_duration_hours segment st =
     (case st of (acc, s) \<Rightarrow>
        if is_home st_distance profile segment then
          (case current_trip_segments acc of
             [] \<Rightarrow> Inr (acc, s)
           | first # _ \<Rightarrow>
               (let trip_start = start_time first;
                    trip_end = start_time segment;
                    duration_hours = real_of_int (trip_end - trip_start) / 3600
                in if current_trip_distance acc / 1000 \<ge> min_distance_km \<and>
                      duration_hours \<ge> min_duration_hours
                   then (case create_trip float_add pl trip_start trip_end (current_trip_segments acc)
                                 (current_trip_distance acc) (iter (current_trip_destinations acc))
                                 ''home_based'' s of
                           Inl e \<Rightarrow> Inl e
                         | Inr s' \<Rightarrow>
                             Inr (home_reset (acc\<lparr>home_trip_count := home_trip_count acc + 1\<rparr>), s'))
                   else Inr (home_reset acc, s)))
        else Inr (home_append float_add segment acc, s))"

definition home_query :: "repository \<Rightarrow> datetime option \<Rightarrow> datetime option \<Rightarrow> TimelineSegment list" where
  "home_query rp start_date end_date =
     sort_key start_time (filter (in_range start_date end_date) (timeline_segments rp))"

definition detect_home_based_trips ::
  "(real \<Rightarrow> real \<Rightarrow> real) \<Rightarrow> (geography \<Rightarrow> geography \<Rightarrow> real) \<Rightarrow> (string list \<Rightarrow> string list) \<Rightarrow> repository
     \<Rightarrow> datetime option \<Rightarrow> datetime option \<Rightarrow> real \<Rightarrow> real \<Rightarrow> session \<Rightarrow> db_error + nat \<times> session" where
  "detect_home_based_trips float_add st_distance iter rp start_date end_date min_distance_km min_duration_hours s =
     (if no_home (user_profile rp) then Inr (0, s)
      else
        (case for_each
                (home_body float_add st_distance iter (places rp) (the (user_profile rp)) min_distance_km min_duration_hours)
                (home_query rp start_date end_date) (home_init, s) of
           Inl e \<Rightarrow> Inl e
         | Inr (acc, s') \<Rightarrow> commit_count (places rp) (home_trip_count acc) s'))"

section \<open>Overnight-stay clusterer (detect_overnight_trips)\<close>

text \<open>The join of \<open>visits\<close> with \<open>timeline_segments\<close>.\<close>

definition visit_rows :: "TimelineSegment list \<Rightarrow> (VisitModel \<times> TimelineSegment) list" where
  "visit_rows segs = List.map_filter (\<lambda>g. map_option (\<lambda>v. (v, g)) (visit g)) segs"

text \<open>SQL's \<open>visits.place_id != :home_place_id\<close>: a NULL \<open>place_id\<close> never passes; against
  \<open>None\<close> SQLAlchemy renders \<open>IS NOT NULL\<close>.\<close>

definition sql_ne :: "string option \<Rightarrow> string option \<Rightarrow> bool" where
  "sql_ne a b = (case a of None \<Rightarrow> False | Some x \<Rightarrow> (case b of None \<Rightarrow> True | Some y \<Rightarrow> x \<noteq> y))"

definition overnight_query ::
  "repository \<Rightarrow> UserProfileModel \<Rightarrow> datetime option \<Rightarrow> datetime option \<Rightarrow> (VisitModel \<times> TimelineSegment) list" where
  "overnight_query rp profile start_date end_date =
     sort_key (\<lambda>vg. start_time (snd vg))
       (filter
          (\<lambda>vg. (use_distance_based profile \<or> sql_ne (place_id (fst vg)) (home_place_id profile)) \<and>
                 hour_of (start_time (snd vg)) \<ge> 20 \<and>
                 hour_of (end_time (snd vg)) \<le> 8 \<and>
                 end_time (snd vg) - start_time (snd vg) \<ge> 6 * 3600 \<and>
                 in_range start_date end_date (snd vg))
          (visit_rows (timeline_segments rp)))"

text \<open>The Python pass of the coordinate mode: only visits with a location at a non-zero
  distance of at least 1 km from home are kept.\<close>

definition far_from_home :: "(geography \<Rightarrow> geography \<Rightarrow> real) \<Rightarrow> UserProfileModel \<Rightarrow> VisitModel \<Rightarrow> bool" where
  "far_from_home st_distance profile v =
     (if location v \<noteq> None \<and> home_location profile \<noteq> None
      then (let distance = st_distance (the (home_location profile)) (the (location v))
            in distance \<noteq> 0 \<and> distance / 1000 \<ge> 1)
      else False)"

definition overnight_visits ::
  "(geography \<Rightarrow> geography \<Rightarrow> real) \<Rightarrow> repository \<Rightarrow> UserProfileModel \<Rightarrow> datetime option \<Rightarrow> datetime option
     \<Rightarrow> (VisitModel \<times> TimelineSegment) list" where
  "overnight_visits st_distance rp profile start_date end_date =
     (if use_distance_based profile
      then filter (\<lambda>vg. far_from_home st_distance profile (fst vg))
             (overnight_query rp profile start_date end_date)
      else overnight_query rp profile start_date end_date)"

definition create_overnight_trip ::
  "(real \<Rightarrow> real \<Rightarrow> real) \<Rightarrow> string list \<Rightarrow> (VisitModel \<times> TimelineSegment) list \<Rightarrow> session \<Rightarrow> db_error + session" where
  "create_overnight_trip float_add pl visits s =
     (case visits of
        [] \<Rightarrow> Inr s
      | first # _ \<Rightarrow>
          create_trip float_add pl (start_time (snd first)) (end_time (snd (last visits)))
            (map snd visits) 0
            (map (\<lambda>vg. the (place_id (fst vg))) (filter (\<lambda>vg. truthy (place_id (fst vg))) visits))
            ''overnight'' s)"

definition overnight_body ::
  "(real \<Rightarrow> real \<Rightarrow> real) \<Rightarrow> string list \<Rightarrow> int \<Rightarrow> VisitModel \<times> TimelineSegment
     \<Rightarrow> ((VisitModel \<times> TimelineSegment) list \<times> nat) \<times> session
     \<Rightarrow> db_error + ((VisitModel \<times> TimelineSegment) list \<times> nat) \<times> session" where
  "overnight_body float_add pl min_nights vg st =
     (case st of ((current_trip_visits, trip_count), s) \<Rightarrow>
        if current_trip_visits = [] then Inr ((current_trip_visits @ [vg], trip_count), s)
        else
          (let last_segment = snd (last current_trip_visits);
               time_gap = start_time (snd vg) - end_time last_segment
           in if time_gap > 48 * 3600 then
                (if int (length current_trip_visits) \<ge> min_nights then
                   (case create_overnight_trip float_add pl current_trip_visits s of
                      Inl e \<Rightarrow> Inl e
                    | Inr s' \<Rightarrow> Inr (([vg], trip_count + 1), s'))
                 else Inr (([vg], trip_count), s))
              else Inr ((current_trip_visits @ [vg], trip_count), s)))"

definition detect_overnight_trips ::
  "(real \<Rightarrow> real \<Rightarrow> real) \<Rightarrow> (geography \<Rightarrow> geography \<Rightarrow> real) \<Rightarrow> repository \<Rightarrow> datetime option \<Rightarrow> datetime option \<Rightarrow> int
     \<Rightarrow> session \<Rightarrow> db_error + nat \<times> session" where
  "detect_overnight_trips float_add st_distance rp start_date end_date min_nights s =
     (if no_home (user_profile rp) then Inr (0, s)
      else
        (case for_each (overnight_body float_add (places rp) min_nights)
                (overnight_visits st_distance rp (the (user_profile rp)) start_date end_date)
                (([], 0), s) of
           Inl e \<Rightarrow> Inl e
         | Inr ((current_trip_visits, trip_count), s') \<Rightarrow>
             if int (length current_trip_visits) \<ge> min_nights then
               (case create_overnight_trip float_add (places rp) current_trip_visits s' of
                  Inl e \<Rightarrow> Inl e
                | Inr s'' \<Rightarrow> commit_count (places rp) (trip_count + 1) s'')
             else commit_count (places rp) trip_count s'))"

section \<open>Distance-based clusterer (detect_distance_based_trips)\<close>

definition distance_query :: "repository \<Rightarrow> datetime option \<Rightarrow> datetime option \<Rightarrow> TimelineSegment list" where
  "distance_query rp start_date end_date =
     sort_key start_time
       (filter (\<lambda>g. segment_type g \<in> set [''visit'', ''activity''] \<and> in_range start_date end_date g)
          (timeline_segments rp))"

definition representative_point :: "TimelineSegment \<Rightarrow> geography option" where
  "representative_point segment =
     (if visit segment \<noteq> None \<and> location (the (visit segment)) \<noteq> None
      then location (the (visit segment))
      else if activity segment \<noteq> None \<and> start_location (the (activity segment)) \<noteq> None
      then start_location (the (activity segment))
      else None)"

definition is_far :: "(geography \<Rightarrow> geography \<Rightarrow> real) \<Rightarrow> geography \<Rightarrow> real \<Rightarrow> TimelineSegment \<Rightarrow> bool" where
  "is_far st_distance home distance_threshold_km segment =
     (case representative_point segment of
        None \<Rightarrow> False
      | Some loc \<Rightarrow>
          (let distance = st_distance home loc
           in distance \<noteq> 0 \<and> distance / 1000 \<ge> distance_threshold_km))"

definition create_clustered_trip ::
  "(real \<Rightarrow> real \<Rightarrow> real) \<Rightarrow> (string list \<Rightarrow> string list) \<Rightarrow> string list \<Rightarrow> TimelineSegment list \<Rightarrow> session \<Rightarrow> db_error + session" where
  "create_clustered_trip float_add iter pl segs s =
     (case segs of
        [] \<Rightarrow> Inr s
      | first # _ \<Rightarrow>
          create_trip float_add pl (start_time first) (end_time (last segs)) segs
            (foldl (\<lambda>total_distance g.
                      case activity g of
                        None \<Rightarrow> total_distance
                      | Some a \<Rightarrow> float_add total_distance (or0 (distance_meters a))) 0 segs)
            (iter (set_of_list
               (map (\<lambda>g. the (place_id (the (visit g))))
                  (filter (\<lambda>g. visit g \<noteq> None \<and> truthy (place_id (the (visit g)))) segs))))
            ''distance_based'' s)"

definition distance_body ::
  "(real \<Rightarrow> real \<Rightarrow> real) \<Rightarrow> (string list \<Rightarrow> string list) \<Rightarrow> string list \<Rightarrow> real \<Rightarrow> TimelineSegment
     \<Rightarrow> (TimelineSegment list \<times> nat) \<times> session \<Rightarrow> db_error + (TimelineSegment list \<times> nat) \<times> session" where
  "distance_body float_add iter pl time_gap_hours segment st =
     (case st of ((current_cluster, trip_count), s) \<Rightarrow>
        if current_cluster = [] then Inr ((current_cluster @ [segment], trip_count), s)
        else
          (let time_gap = real_of_int (start_time segment - end_time (last current_cluster)) / 3600
           in if time_gap \<le> time_gap_hours then Inr ((current_cluster @ [segment], trip_count), s)
              else if length current_cluster \<ge> 2 then
                (case create_clustered_trip float_add iter pl current_cluster s of
                   Inl e \<Rightarrow> Inl e
                 | Inr s' \<Rightarrow> Inr (([segment], trip_count + 1), s'))
              else Inr (([segment], trip_count), s)))"

definition detect_distance_based_trips ::
  "(real \<Rightarrow> real \<Rightarrow> real) \<Rightarrow> (geography \<Rightarrow> geography \<Rightarrow> real) \<Rightarrow> (string list \<Rightarrow> string list) \<Rightarrow> repository
     \<Rightarrow> datetime option \<Rightarrow> datetime option \<Rightarrow> real \<Rightarrow> real \<Rightarrow> session \<Rightarrow> db_error + nat \<times> session" where
  "detect_distance_based_trips float_add st_distance iter rp start_date end_date distance_threshold_km time_gap_hours s =
     (case user_profile rp of
        None \<Rightarrow> Inr (0, s)
      | Some profile \<Rightarrow>
          (case home_location profile of
             None \<Rightarrow> Inr (0, s)
           | Some home \<Rightarrow>
               (case for_each (distance_body float_add iter (places rp) time_gap_hours)
                       (filter (is_far st_distance home distance_threshold_km)
                          (distance_query rp start_date end_date))
                       (([], 0), s) of
                  Inl e \<Rightarrow> Inl e
                | Inr ((current_cluster, trip_count), s') \<Rightarrow>
                    if length current_cluster \<ge> 2 then
                      (case create_clustered_trip float_add iter (places rp) current_cluster s' of
                         Inl e \<Rightarrow> Inl e
                       | Inr s'' \<Rightarrow> commit_count (places rp) (trip_count + 1) s'')
                    else commit_count (places rp) trip_count s')))"

section \<open>Sequences of detector runs\<close>

text \<open>One call of a detector, with the repository it reads at that moment and its arguments.\<close>

datatype invocation =
    RunMemory repository "datetime option" "datetime option"
  | RunHome repository "datetime option" "datetime option" real real
  | RunOvernight repository "datetime option" "datetime option" int
  | RunDistance repository "datetime option" "datetime option" real real

fun invoke ::
  "(real \<Rightarrow> real \<Rightarrow> real) \<Rightarrow> (geography \<Rightarrow> geography \<Rightarrow> real) \<Rightarrow> (string list \<Rightarrow> string list) \<Rightarrow> invocation \<Rightarrow> session
     \<Rightarrow> db_error + nat \<times> session" where
  "invoke float_add st_distance iter (RunMemory rp sd ed) s = detect_timeline_memory_trips rp sd ed s"
| "invoke float_add st_distance iter (RunHome rp sd ed km h) s = detect_home_based_trips float_add st_distance iter rp sd ed km h s"
| "invoke float_add st_distance iter (RunOvernight rp sd ed n) s = detect_overnight_trips float_add st_distance rp sd ed n s"
| "invoke float_add st_distance iter (RunDistance rp sd ed km h) s = detect_distance_based_trips float_add st_distance iter rp sd ed km h s"

text \<open>A run that raises never commits: the store stays as it was before the run.\<close>

fun run_all ::
  "(real \<Rightarrow> real \<Rightarrow> real) \<Rightarrow> (geography \<Rightarrow> geography \<Rightarrow> real) \<Rightarrow> (string list \<Rightarrow> string list) \<Rightarrow> invocation list \<Rightarrow> session \<Rightarrow> session" where
  "run_all float_add st_distance iter [] s = s"
| "run_all float_add st_distance iter (c # cs) s =
     (case invoke float_add st_distance iter c s of
        Inl e \<Rightarrow> run_all float_add st_distance iter cs s
      | Inr (n, s') \<Rightarrow> run_all float_add st_distance iter cs s')"

section \<open>Vocabulary of the properties\<close>

text \<open>The activity payloads of the member segments, in segment order; the distance an
  activity contributes (nothing when it records none); and the sum of one movement-mode
  label: the distances of the activities with that label, added up from 0 in segment
  order with the run's float addition.\<close>

definition activities_of :: "TimelineSegment list \<Rightarrow> ActivityModel list" where
  "activities_of segs = List.map_filter activity segs"

definition distance_of :: "ActivityModel \<Rightarrow> real" where
  "distance_of a = (case distance_meters a of None \<Rightarrow> 0 | Some d \<Rightarrow> d)"

definition label_total :: "(real \<Rightarrow> real \<Rightarrow> real) \<Rightarrow> ActivityModel list \<Rightarrow> string option \<Rightarrow> real" where
  "label_total float_add acts l =
     foldl float_add 0 (map distance_of (filter (\<lambda>a. activity_type a = l) acts))"

text \<open>The table the per-label sums form, keyed in order of first encounter.\<close>

definition mode_table :: "(real \<Rightarrow> real \<Rightarrow> real) \<Rightarrow> ActivityModel list \<Rightarrow> (string option \<times> real) list" where
  "mode_table float_add acts =
     map (\<lambda>l. (l, label_total float_add acts l)) (set_of_list (map activity_type acts))"

text \<open>Away from home under the resolved mode: in identifier mode the visit has a place
  identifier other than home's; in coordinate mode it has a location at least 1 km
  (1000 m) from the home coordinate.\<close>

definition away_from_home :: "(geography \<Rightarrow> geography \<Rightarrow> real) \<Rightarrow> UserProfileModel \<Rightarrow> VisitModel \<Rightarrow> bool" where
  "away_from_home st_distance profile v =
     (if use_distance_based profile
      then (case home_location profile of
              None \<Rightarrow> False
            | Some home \<Rightarrow> (case location v of None \<Rightarrow> False | Some loc \<Rightarrow> st_distance home loc \<ge> 1000))
      else (case place_id v of None \<Rightarrow> False | Some p \<Rightarrow> home_place_id profile \<noteq> Some p))"

text \<open>The night window read as a disjunction, and as a conjunction.\<close>

definition night_window_either :: "TimelineSegment \<Rightarrow> bool" where
  "night_window_either g = (hour_of (start_time g) \<ge> 20 \<or> hour_of (end_time g) \<le> 8)"

definition night_window_both :: "TimelineSegment \<Rightarrow> bool" where
  "night_window_both g = (hour_of (start_time g) \<ge> 20 \<and> hour_of (end_time g) \<le> 8)"

text \<open>The dedup key of a trip row, and the effect of one materialization with key
  \<open>k\<close>: no write when a row with that key exists, else exactly one new row with it.\<close>

definition trip_key :: "TripModel \<Rightarrow> datetime \<times> datetime \<times> string" where
  "trip_key t = (trip_start_time t, trip_end_time t, detection_algorithm t)"

definition created :: "session \<Rightarrow> session \<Rightarrow> datetime \<times> datetime \<times> string \<Rightarrow> bool" where
  "created s s' k =
     (if k \<in> trip_key ` set (trips s) then s' = s
      else (\<exists>t. trips s' = trips s @ [t] \<and> trip_key t = k))"

text \<open>The place identifiers of the visits of a run, in visit order, and what every
  iteration order of a Python set guarantees: each element once.\<close>

definition visited_place_ids :: "TimelineSegment list \<Rightarrow> string list" where
  "visited_place_ids segs =
     map (\<lambda>g. the (place_id (the (visit g))))
       (filter (\<lambda>g. visit g \<noteq> None \<and> truthy (place_id (the (visit g)))) segs)"

definition valid_iteration :: "(string list \<Rightarrow> string list) \<Rightarrow> bool" where
  "valid_iteration iter = (\<forall>xs. distinct xs \<longrightarrow> distinct (iter xs) \<and> set (iter xs) = set xs)"

text \<open>The trip rows a run added: those of the store after it that the store before it
  did not hold. Every one of them ending after it starts, or no earlier than it starts;
  and the same two conditions on every segment of the repository.\<close>

definition created_trips :: "session \<Rightarrow> session \<Rightarrow> TripModel list" where
  "created_trips s s' = filter (\<lambda>t. t \<notin> set (trips s)) (trips s')"

definition end_after_start :: "TripModel list \<Rightarrow> bool" where
  "end_after_start ts = list_all (\<lambda>t. trip_start_time t < trip_end_time t) ts"

definition end_not_before_start :: "TripModel list \<Rightarrow> bool" where
  "end_not_before_start ts = list_all (\<lambda>t. trip_start_time t \<le> trip_end_time t) ts"

text \<open>Every trip row of a store is either a row of an earlier store or has bounds related
  by \<open>R\<close>.\<close>

definition added_within :: "(datetime \<Rightarrow> datetime \<Rightarrow> bool) \<Rightarrow> session \<Rightarrow> session \<Rightarrow> bool" where
  "added_within R s0 s =
     list_all (\<lambda>t. t \<in> set (trips s0) \<or> R (trip_start_time t) (trip_end_time t)) (trips s)"

definition segments_strict :: "repository \<Rightarrow> bool" where
  "segments_strict rp = list_all (\<lambda>g. start_time g < end_time g) (timeline_segments rp)"

definition segments_ordered :: "repository \<Rightarrow> bool" where
  "segments_ordered rp = list_all (\<lambda>g. start_time g \<le> end_time g) (timeline_segments rp)"

text \<open>The segments of a stream that come after its last home visit, in stream order (the
  whole stream when it has no home visit).\<close>

definition trailing_run :: "(TimelineSegment \<Rightarrow> bool) \<Rightarrow> TimelineSegment list \<Rightarrow> TimelineSegment list" where
  "trailing_run home segs = rev (takeWhile (\<lambda>g. \<not> home g) (rev segs))"

section \<open>Concrete timelines\<close>

definition activity_segment :: "int \<Rightarrow> datetime \<Rightarrow> datetime \<Rightarrow> string \<Rightarrow> real \<Rightarrow> TimelineSegment" where
  "activity_segment i st en mode d =
     \<lparr>seg_id = i, segment_type = ''activity'', start_time = st, end_time = en, visit = None,
      activity = Some \<lparr>start_location = None, distance_meters = Some d, activity_type = Some mode\<rparr>,
      timeline_memory = None\<rparr>"

text \<open>An inexact addition, standing for any rounded one: every sum is rounded down to a
  whole number.\<close>

definition floor_add :: "real \<Rightarrow> real \<Rightarrow> real" where
  "floor_add a b = real_of_int \<lfloor>a + b\<rfloor>"

definition visit_segment :: "int \<Rightarrow> datetime \<Rightarrow> datetime \<Rightarrow> string option \<Rightarrow> geography option \<Rightarrow> TimelineSegment" where
  "visit_segment i st en p loc =
     \<lparr>seg_id = i, segment_type = ''visit'', start_time = st, end_time = en,
      visit = Some \<lparr>place_id = p, location = loc\<rparr>, activity = None, timeline_memory = None\<rparr>"

definition memory_segment :: "int \<Rightarrow> datetime \<Rightarrow> datetime \<Rightarrow> int option \<Rightarrow> string list \<Rightarrow> TimelineSegment" where
  "memory_segment i st en km ds =
     \<lparr>seg_id = i, segment_type = ''memory'', start_time = st, end_time = en, visit = None,
      activity = None,
      timeline_memory = Some \<lparr>distance_from_origin_kms = km, destination_place_ids = Some ds\<rparr>\<rparr>"

text \<open>A distance between points that is zero exactly on equal points (metres per unit of
  coordinate difference), standing in for \<open>ST_Distance\<close> on concrete inputs.\<close>

definition grid_distance :: "geography \<Rightarrow> geography \<Rightarrow> real" where
  "grid_distance p q = 1000 * (\<bar>fst p - fst q\<bar> + \<bar>snd p - snd q\<bar>)"

definition home_by_id :: UserProfileModel where
  "home_by_id = \<lparr>home_place_id = Some ''H'', home_location = None\<rparr>"

definition home_by_point :: UserProfileModel where
  "home_by_point = \<lparr>home_place_id = None, home_location = Some (0, 0)\<rparr>"

text \<open>A home reference and no segment at all.\<close>

definition quiet_repository :: repository where
  "quiet_repository = \<lparr>timeline_segments = [], user_profile = Some home_by_id, places = []\<rparr>"

text \<open>Two nights (20:00 to 08:00) at the same place \<open>P\<close>, one day apart.\<close>

definition two_nights_same_place :: repository where
  "two_nights_same_place =
     \<lparr>timeline_segments =
        [visit_segment 1 72000 115200 (Some ''P'') None,
         visit_segment 2 158400 201600 (Some ''P'') None],
      user_profile = Some home_by_id, places = [''P'']\<rparr>"

text \<open>One stay at \<open>P\<close> from 21:00 to 09:00 of the next day.\<close>

definition late_riser :: repository where
  "late_riser =
     \<lparr>timeline_segments = [visit_segment 1 75600 118800 (Some ''P'') None],
      user_profile = Some home_by_id, places = [''P'']\<rparr>"

text \<open>One provider memory with two destinations, and the store after replaying it.\<close>

definition one_memory :: repository where
  "one_memory =
     \<lparr>timeline_segments = [memory_segment 1 1000 5000 (Some 12) [''A'', ''B'']],
      user_profile = Some home_by_id, places = [''A'', ''B'']\<rparr>"

definition one_memory_store :: session where
  "one_memory_store =
     \<lparr>trips = [\<lparr>trip_id = 1, trip_start_time = 1000, trip_end_time = 5000, is_multi_day = False,
                 total_distance_meters = 12000, primary_transport_mode = None,
                 detection_algorithm = ''timeline_memory''\<rparr>],
      trip_destinations = [\<lparr>dest_trip_id = 1, dest_place_id = ''A'', visit_order = 0\<rparr>,
                           \<lparr>dest_trip_id = 1, dest_place_id = ''B'', visit_order = 1\<rparr>],
      trip_segments = [\<lparr>link_trip_id = 1, link_segment_id = 1, segment_order = 0\<rparr>],
      trips_id_seq = 1, new_objects = []\<rparr>"

text \<open>Home, then a 90 km drive, a stay elsewhere and a further drive, and no return.\<close>

definition out_and_no_return :: repository where
  "out_and_no_return =
     \<lparr>timeline_segments =
        [visit_segment 1 0 1000 (Some ''H'') None,
         activity_segment 2 1000 40000 ''driving'' 90000,
         visit_segment 3 40000 90000 (Some ''A'') None,
         activity_segment 4 90000 100000 ''driving'' 50000],
      user_profile = Some home_by_id, places = [''A'', ''H'']\<rparr>"

text \<open>Home, stays at \<open>A\<close> and \<open>B\<close>, a 60 km drive, home again; and the store after
  home-based detection when sets iterate in reverse insertion order.\<close>

definition there_and_back :: repository where
  "there_and_back =
     \<lparr>timeline_segments =
        [visit_segment 1 0 1000 (Some ''H'') None,
         visit_segment 2 2000 3000 (Some ''A'') None,
         visit_segment 3 4000 5000 (Some ''B'') None,
         activity_segment 4 5000 20000 ''driving'' 60000,
         visit_segment 5 20000 30000 (Some ''H'') None],
      user_profile = Some home_by_id, places = [''A'', ''B'', ''H'']\<rparr>"

text \<open>The same timeline followed by a second outing that never returns home.\<close>

definition there_and_back_and_out :: repository where
  "there_and_back_and_out =
     \<lparr>timeline_segments =
        [visit_segment 1 0 1000 (Some ''H'') None,
         visit_segment 2 2000 3000 (Some ''A'') None,
         visit_segment 3 4000 5000 (Some ''B'') None,
         activity_segment 4 5000 20000 ''driving'' 60000,
         visit_segment 5 20000 30000 (Some ''H'') None,
         activity_segment 6 30000 50000 ''driving'' 80000,
         visit_segment 7 50000 90000 (Some ''A'') None,
         activity_segment 8 90000 95000 ''driving'' 10000],
      user_profile = Some home_by_id, places = [''A'', ''B'', ''H'']\<rparr>"

definition there_and_back_store :: session where
  "there_and_back_store =
     \<lparr>trips = [\<lparr>trip_id = 1, trip_start_time = 2000, trip_end_time = 20000, is_multi_day = False,
                 total_distance_meters = 60000, primary_transport_mode = Some ''driving'',
                 detection_algorithm = ''home_based''\<rparr>],
      trip_destinations = [\<lparr>dest_trip_id = 1, dest_place_id = ''B'', visit_order = 0\<rparr>,
                           \<lparr>dest_trip_id = 1, dest_place_id = ''A'', visit_order = 1\<rparr>],
      trip_segments = [\<lparr>link_trip_id = 1, link_segment_id = 2, segment_order = 0\<rparr>,
                       \<lparr>link_trip_id = 1, link_segment_id = 3, segment_order = 1\<rparr>,
                       \<lparr>link_trip_id = 1, link_segment_id = 4, segment_order = 2\<rparr>],
      trips_id_seq = 1, new_objects = []\<rparr>"

text \<open>Two nights at two places, and two visits 200 km from the home point; with the
  stores their detectors leave.\<close>

definition two_nights_two_places :: repository where
  "two_nights_two_places =
     \<lparr>timeline_segments =
        [visit_segment 1 72000 115200 (Some ''P'') None,
         visit_segment 2 158400 201600 (Some ''Q'') None],
      user_profile = Some home_by_id, places = [''P'', ''Q'']\<rparr>"

definition two_nights_store :: session where
  "two_nights_store =
     \<lparr>trips = [\<lparr>trip_id = 1, trip_start_time = 72000, trip_end_time = 201600, is_multi_day = True,
                 total_distance_meters = 0, primary_transport_mode = None,
                 detection_algorithm = ''overnight''\<rparr>],
      trip_destinations = [\<lparr>dest_trip_id = 1, dest_place_id = ''P'', visit_order = 0\<rparr>,
                           \<lparr>dest_trip_id = 1, dest_place_id = ''Q'', visit_order = 1\<rparr>],
      trip_segments = [\<lparr>link_trip_id = 1, link_segment_id = 1, segment_order = 0\<rparr>,
                       \<lparr>link_trip_id = 1, link_segment_id = 2, segment_order = 1\<rparr>],
      trips_id_seq = 1, new_objects = []\<rparr>"

definition far_away :: repository where
  "far_away =
     \<lparr>timeline_segments =
        [visit_segment 1 0 3600 (Some ''A'') (Some (200, 0)),
         visit_segment 2 7200 10800 (Some ''B'') (Some (201, 0))],
      user_profile = Some home_by_point, places = [''A'', ''B'']\<rparr>"

definition far_away_store :: session where
  "far_away_store =
     \<lparr>trips = [\<lparr>trip_id = 1, trip_start_time = 0, trip_end_time = 10800, is_multi_day = False,
                 total_distance_meters = 0, primary_transport_mode = None,
                 detection_algorithm = ''distance_based''\<rparr>],
      trip_destinations = [\<lparr>dest_trip_id = 1, dest_place_id = ''B'', visit_order = 0\<rparr>,
                           \<lparr>dest_trip_id = 1, dest_place_id = ''A'', visit_order = 1\<rparr>],
      trip_segments = [\<lparr>link_trip_id = 1, link_segment_id = 1, segment_order = 0\<rparr>,
                       \<lparr>link_trip_id = 1, link_segment_id = 2, segment_order = 1\<rparr>],
      trips_id_seq = 1, new_objects = []\<rparr>"

text \<open>A provider memory whose end time equals its start time, and the store after
  replaying it.\<close>

definition instant_memory :: repository where
  "instant_memory =
     \<lparr>timeline_segments = [memory_segment 1 1000 1000 None []],
      user_profile = None, places = []\<rparr>"

definition instant_memory_store :: session where
  "instant_memory_store =
     \<lparr>trips = [\<lparr>trip_id = 1, trip_start_time = 1000, trip_end_time = 1000, is_multi_day = False,
                 total_distance_meters = 0, primary_transport_mode = None,
                 detection_algorithm = ''timeline_memory''\<rparr>],
      trip_destinations = [],
      trip_segments = [\<lparr>link_trip_id = 1, link_segment_id = 1, segment_order = 0\<rparr>],
      trips_id_seq = 1, new_objects = []\<rparr>"

text \<open>A stay at \<open>A\<close> and a stay at home that start at the same instant, and the store after
  home-based detection with both thresholds at zero.\<close>

definition home_at_once :: repository where
  "home_at_once =
     \<lparr>timeline_segments =
        [visit_segment 1 1000 2000 (Some ''A'') None,
         visit_segment 2 1000 3000 (Some ''H'') None],
      user_profile = Some home_by_id, places = [''A'', ''H'']\<rparr>"

definition home_at_once_store :: session where
  "home_at_once_store =
     \<lparr>trips = [\<lparr>trip_id = 1, trip_start_time = 1000, trip_end_time = 1000, is_multi_day = False,
                 total_distance_meters = 0, primary_transport_mode = None,
                 detection_algorithm = ''home_based''\<rparr>],
      trip_destinations = [\<lparr>dest_trip_id = 1, dest_place_id = ''A'', visit_order = 0\<rparr>],
      trip_segments = [\<lparr>link_trip_id = 1, link_segment_id = 1, segment_order = 0\<rparr>],
      trips_id_seq = 1, new_objects = []\<rparr>"

section \<open>Primary transport mode\<close>

lemma set_add_snoc: "fold set_add xs acc = foldl (\<lambda>a x. set_add x a) acc xs"
  by (simp add: foldl_conv_fold)

lemma set_of_list_snoc: "set_of_list (xs @ [x]) = set_add x (set_of_list xs)"
  by (simp add: set_of_list_def)

lemma set_set_add: "set (set_add x xs) = insert x (set xs)"
  by (auto simp: set_add_def)

lemma set_set_of_list: "set (set_of_list xs) = set xs"
  by (induction xs rule: rev_induct) (simp_all add: set_of_list_snoc set_set_add set_of_list_def)

lemma distinct_set_add: "distinct xs \<Longrightarrow> distinct (set_add x xs)"
  by (simp add: set_add_def)

lemma distinct_set_of_list: "distinct (set_of_list xs)"
  by (induction xs rule: rev_induct) (simp_all add: set_of_list_snoc distinct_set_add set_of_list_def)

lemma label_total_snoc:
  "label_total float_add (acts @ [a]) l =
     (if activity_type a = l then float_add (label_total float_add acts l) (distance_of a)
      else label_total float_add acts l)"
  by (simp add: label_total_def)

lemma label_total_unseen: "l \<notin> activity_type ` set acts \<Longrightarrow> label_total float_add acts l = 0"
proof -
  assume "l \<notin> activity_type ` set acts"
  then have "filter (\<lambda>a. activity_type a = l) acts = []"
    by (auto simp: filter_empty_conv)
  then show ?thesis by (simp add: label_total_def)
qed

lemma add_mode_distance_map:
  "distinct ls \<Longrightarrow> (m \<notin> set ls \<Longrightarrow> f m = 0) \<Longrightarrow>
   add_mode_distance float_add m d (map (\<lambda>l. (l, f l)) ls) =
     map (\<lambda>l. (l, if l = m then float_add (f l) d else f l)) (set_add m ls)"
  by (induction ls) (auto simp: set_add_def)

lemma or0_distance_of: "or0 (distance_meters a) = distance_of a"
  by (simp add: or0_def distance_of_def)

lemma mode_table_snoc:
  "mode_table float_add (acts @ [a]) =
     add_mode_distance float_add (activity_type a) (or0 (distance_meters a)) (mode_table float_add acts)"
proof -
  let ?ls = "set_of_list (map activity_type acts)"
  have unseen: "activity_type a \<notin> set ?ls \<Longrightarrow> label_total float_add acts (activity_type a) = 0"
    by (simp add: set_set_of_list label_total_unseen)
  have "add_mode_distance float_add (activity_type a) (distance_of a)
          (map (\<lambda>l. (l, label_total float_add acts l)) ?ls) =
      map (\<lambda>l. (l, if l = activity_type a then float_add (label_total float_add acts l) (distance_of a)
                     else label_total float_add acts l))
        (set_add (activity_type a) ?ls)"
    by (rule add_mode_distance_map) (simp_all add: distinct_set_of_list unseen)
  also have "\<dots> = mode_table float_add (acts @ [a])"
    unfolding mode_table_def by (simp add: set_of_list_snoc label_total_snoc eq_commute)
  finally show ?thesis by (simp add: mode_table_def or0_distance_of)
qed

lemma mode_distances_of_table:
  "mode_distances_of float_add segs (mode_table float_add acts) =
     mode_table float_add (acts @ activities_of segs)"
proof (induction segs arbitrary: acts)
  case Nil
  show ?case by (simp add: activities_of_def)
next
  case (Cons g segs)
  show ?case
  proof (cases "activity g")
    case None
    with Cons show ?thesis by (simp add: activities_of_def)
  next
    case (Some a)
    have "mode_distances_of float_add (g # segs) (mode_table float_add acts) =
        mode_distances_of float_add segs (mode_table float_add (acts @ [a]))"
      using Some by (simp add: mode_table_snoc)
    also have "\<dots> = mode_table float_add ((acts @ [a]) @ activities_of segs)" by (rule Cons.IH)
    finally show ?thesis using Some by (simp add: activities_of_def)
  qed
qed

lemma mode_distances_of_eq:
  "mode_distances_of float_add segs [] = mode_table float_add (activities_of segs)"
  using mode_distances_of_table [of float_add segs "[]"] by (simp add: mode_table_def set_of_list_def)

lemma py_max_by_first_max:
  "py_max_by key b xs \<in> set (b # xs) \<and>
   (\<forall>y \<in> set (b # xs). key y \<le> key (py_max_by key b xs)) \<and>
   (\<forall>y \<in> set (takeWhile (\<lambda>y. y \<noteq> py_max_by key b xs) (b # xs)). key y < key (py_max_by key b xs))"
proof (induction xs arbitrary: b)
  case Nil
  show ?case by simp
next
  case (Cons x xs)
  show ?case
  proof (cases "key x > key b")
    case True
    let ?r = "py_max_by key x xs"
    from Cons.IH [of x] have r: "?r \<in> set (x # xs)" "\<forall>y \<in> set (x # xs). key y \<le> key ?r"
      "\<forall>y \<in> set (takeWhile (\<lambda>y. y \<noteq> ?r) (x # xs)). key y < key ?r" by blast+
    from r(2) True have "key b < key ?r" by force
    then have "b \<noteq> ?r" by auto
    with r \<open>key b < key ?r\<close> True show ?thesis by auto
  next
    case False
    let ?r = "py_max_by key b xs"
    from Cons.IH [of b] have r: "?r \<in> set (b # xs)" "\<forall>y \<in> set (b # xs). key y \<le> key ?r"
      "\<forall>y \<in> set (takeWhile (\<lambda>y. y \<noteq> ?r) (b # xs)). key y < key ?r" by blast+
    show ?thesis
    proof (cases "b = ?r")
      case True
      with r False show ?thesis by auto
    next
      case bne: False
      with r(3) have "key b < key ?r" by simp
      with False have "key x < key ?r" by simp
      then have "x \<noteq> ?r" by auto
      with r bne False \<open>key b < key ?r\<close> \<open>key x < key ?r\<close> show ?thesis by auto
    qed
  qed
qed

lemma takeWhile_set_of_list:
  "set (takeWhile (\<lambda>x. x \<noteq> m) (set_of_list xs)) = set (takeWhile (\<lambda>x. x \<noteq> m) xs)"
proof (induction xs rule: rev_induct)
  case Nil
  show ?case by (simp add: set_of_list_def)
next
  case (snoc x xs)
  show ?case
  proof (cases "m \<in> set xs")
    case True
    then have "m \<in> set (set_of_list xs)" by (simp add: set_set_of_list)
    with True snoc show ?thesis
      by (simp add: set_of_list_snoc set_add_def takeWhile_append1)
  next
    case False
    then have "m \<notin> set (set_of_list xs)" by (simp add: set_set_of_list)
    then have all: "takeWhile (\<lambda>x. x \<noteq> m) (set_of_list xs) = set_of_list xs"
      by (auto simp: takeWhile_eq_all_conv)
    from False have all': "takeWhile (\<lambda>x. x \<noteq> m) xs = xs"
      by (auto simp: takeWhile_eq_all_conv)
    from False have app: "takeWhile (\<lambda>x. x \<noteq> m) (xs @ [x]) = xs @ takeWhile (\<lambda>x. x \<noteq> m) [x]"
      by (intro takeWhile_append2) auto
    from \<open>m \<notin> set (set_of_list xs)\<close>
    have app': "takeWhile (\<lambda>x. x \<noteq> m) (set_of_list xs @ [x]) = set_of_list xs @ takeWhile (\<lambda>x. x \<noteq> m) [x]"
      by (intro takeWhile_append2) auto
    show ?thesis
      using False by (auto simp: set_of_list_snoc set_add_def all app app' set_set_of_list)
  qed
qed

lemma flush_objects_trips: "flush_objects pl obs s = Inr s' \<Longrightarrow> trips s' = trips s"
proof (induction obs arbitrary: s)
  case Nil
  then show ?case by simp
next
  case (Cons ob obs)
  then obtain s1 where s1: "insert_object pl ob s = Inr s1" and rest: "flush_objects pl obs s1 = Inr s'"
    by (auto split: sum.splits)
  from s1 have "trips s1 = trips s" by (cases ob) (auto split: if_splits)
  with Cons.IH [OF rest] show ?case by simp
qed

lemma flush_trips: "flush pl s = Inr s' \<Longrightarrow> trips s' = trips s"
  unfolding flush_def by (drule flush_objects_trips) simp

lemma add_trip_and_flush_trips:
  "add_trip_and_flush pl trip s = Inr (tid, s') \<Longrightarrow>
     trips s' = trips s @ [trip\<lparr>trip_id := tid\<rparr>]"
  unfolding add_trip_and_flush_def Let_def
  by (auto split: sum.splits dest!: flush_trips)

text \<open>
  C4. Whenever some member segment carries an activity payload, the primary transport mode
  of the materialized trip is a movement-mode label of those payloads whose summed distance
  is largest, and every label met before it in segment order has a strictly smaller sum
  (an exact tie of the sums goes to the label met first). The sum of a label is the one the
  program computes: its distances added in segment order with the run's float addition.
  When no member segment carries an activity payload the primary mode is absent. The trip
  row that \<open>create_trip\<close> writes carries exactly this mode.
\<close>

theorem primary_mode_largest_sum_first_seen:
  "(activities_of segs \<noteq> [] \<longrightarrow>
      primary_mode_of float_add segs \<in> set (map activity_type (activities_of segs)) \<and>
      (\<forall>l \<in> set (map activity_type (activities_of segs)).
          label_total float_add (activities_of segs) l
            \<le> label_total float_add (activities_of segs) (primary_mode_of float_add segs)) \<and>
      (\<forall>l \<in> set (takeWhile (\<lambda>l. l \<noteq> primary_mode_of float_add segs)
                    (map activity_type (activities_of segs))).
          label_total float_add (activities_of segs) l
            < label_total float_add (activities_of segs) (primary_mode_of float_add segs))) \<and>
   (activities_of segs = [] \<longrightarrow> primary_mode_of float_add segs = None) \<and>
   (find_existing st en alg s = None \<and> create_trip float_add pl st en segs d dests alg s = Inr s' \<longrightarrow>
      primary_transport_mode (last (trips s')) = primary_mode_of float_add segs)"
proof (intro conjI impI)
  assume "activities_of segs = []"
  then show "primary_mode_of float_add segs = None"
    by (simp add: primary_mode_of_def mode_distances_of_eq mode_table_def set_of_list_def)
next
  assume "find_existing st en alg s = None \<and> create_trip float_add pl st en segs d dests alg s = Inr s'"
  then show "primary_transport_mode (last (trips s')) = primary_mode_of float_add segs"
    by (auto simp: create_trip_def add_all_def split: sum.splits dest!: add_trip_and_flush_trips)
next
  let ?acts = "activities_of segs"
  let ?L = "map activity_type ?acts"
  let ?g = "\<lambda>l. (l, label_total float_add ?acts l)"
  let ?md = "mode_table float_add ?acts"
  let ?pm = "primary_mode_of float_add segs"
  assume ne: "?acts \<noteq> []"
  then have "set (set_of_list ?L) \<noteq> {}" by (simp add: set_set_of_list)
  then have "?md \<noteq> []" by (auto simp: mode_table_def)
  then obtain item items where md: "?md = item # items" by (cases ?md) auto
  define r where "r = py_max_by snd item items"
  have pm: "?pm = fst r"
    by (simp add: primary_mode_of_def mode_distances_of_eq md r_def)
  from py_max_by_first_max [of snd item items]
  have r_in: "r \<in> set ?md" and r_max: "\<forall>y \<in> set ?md. snd y \<le> snd r"
    and r_first: "\<forall>y \<in> set (takeWhile (\<lambda>y. y \<noteq> r) ?md). snd y < snd r"
    unfolding r_def md by blast+
  from r_in have r_eq: "r = ?g (fst r)" and m_in: "fst r \<in> set ?L"
    by (auto simp: mode_table_def set_set_of_list)
  show "?pm \<in> set ?L" using m_in pm by simp
  show "\<forall>l \<in> set ?L. label_total float_add ?acts l \<le> label_total float_add ?acts ?pm"
  proof
    fix l assume "l \<in> set ?L"
    then have "?g l \<in> set ?md" by (simp add: mode_table_def set_set_of_list)
    with r_max have "snd (?g l) \<le> snd r" by blast
    then show "label_total float_add ?acts l \<le> label_total float_add ?acts ?pm"
      using r_eq pm by (metis snd_conv)
  qed
  show "\<forall>l \<in> set (takeWhile (\<lambda>l. l \<noteq> ?pm) ?L).
          label_total float_add ?acts l < label_total float_add ?acts ?pm"
  proof
    fix l assume "l \<in> set (takeWhile (\<lambda>l. l \<noteq> ?pm) ?L)"
    then have l: "l \<in> set (takeWhile (\<lambda>l. l \<noteq> fst r) (set_of_list ?L))"
      by (simp add: takeWhile_set_of_list pm)
    have "(\<lambda>y. y \<noteq> r) \<circ> ?g = (\<lambda>l. l \<noteq> fst r)"
      using r_eq by (auto simp: fun_eq_iff)
    then have "takeWhile (\<lambda>y. y \<noteq> r) ?md = map ?g (takeWhile (\<lambda>l. l \<noteq> fst r) (set_of_list ?L))"
      by (simp add: mode_table_def takeWhile_map)
    with l have "?g l \<in> set (takeWhile (\<lambda>y. y \<noteq> r) ?md)" by simp
    with r_first have "snd (?g l) < snd r" by blast
    then show "label_total float_add ?acts l < label_total float_add ?acts ?pm"
      using r_eq pm by (metis snd_conv)
  qed
qed

text \<open>
  On distances that are small whole numbers float addition is exact, so \<open>(+)\<close> is the
  run's addition on the timelines below: an exact tie (walking 500, driving 500) goes to
  walking, met first; driving 500 beats walking 100 met before it; and walking 300 + 300
  beats driving 500 met in between. Under an addition that rounds, the sums compared are the
  rounded ones: with \<open>floor_add\<close> three walks of one half sum to 0, so a drive of 1 is the
  primary mode although the exact sums are 1.5 and 1.
\<close>

theorem primary_mode_tie_witness:
  "primary_mode_of (+) [activity_segment 1 0 600 ''walking'' 500, activity_segment 2 600 900 ''driving'' 500]
     = Some ''walking'' \<and>
   label_total (+) (activities_of [activity_segment 1 0 600 ''walking'' 500, activity_segment 2 600 900 ''driving'' 500])
       (Some ''driving'') = 500 \<and>
   label_total (+) (activities_of [activity_segment 1 0 600 ''walking'' 500, activity_segment 2 600 900 ''driving'' 500])
       (Some ''walking'') = 500 \<and>
   primary_mode_of (+) [activity_segment 1 0 600 ''walking'' 100, activity_segment 2 600 900 ''driving'' 500]
     = Some ''driving'' \<and>
   label_total (+) (activities_of [activity_segment 1 0 600 ''walking'' 100, activity_segment 2 600 900 ''driving'' 500])
       (Some ''walking'')
     < label_total (+) (activities_of [activity_segment 1 0 600 ''walking'' 100, activity_segment 2 600 900 ''driving'' 500])
       (Some ''driving'') \<and>
   primary_mode_of (+)
     [activity_segment 1 0 600 ''walking'' 300, activity_segment 2 600 900 ''driving'' 500,
      activity_segment 3 900 1500 ''walking'' 300] = Some ''walking'' \<and>
   label_total (+)
     (activities_of [activity_segment 1 0 600 ''walking'' 300, activity_segment 2 600 900 ''driving'' 500,
        activity_segment 3 900 1500 ''walking'' 300]) (Some ''walking'') = 600 \<and>
   primary_mode_of floor_add
     [activity_segment 1 0 600 ''walking'' (1 / 2), activity_segment 2 600 900 ''driving'' 1,
      activity_segment 3 900 1500 ''walking'' (1 / 2), activity_segment 4 1500 1600 ''walking'' (1 / 2)]
     = Some ''driving'' \<and>
   label_total floor_add
     (activities_of
        [activity_segment 1 0 600 ''walking'' (1 / 2), activity_segment 2 600 900 ''driving'' 1,
         activity_segment 3 900 1500 ''walking'' (1 / 2), activity_segment 4 1500 1600 ''walking'' (1 / 2)])
     (Some ''walking'') = 0 \<and>
   label_total floor_add
     (activities_of
        [activity_segment 1 0 600 ''walking'' (1 / 2), activity_segment 2 600 900 ''driving'' 1,
         activity_segment 3 900 1500 ''walking'' (1 / 2), activity_segment 4 1500 1600 ''walking'' (1 / 2)])
     (Some ''driving'') = 1 \<and>
   primary_mode_of (+) [visit_segment 3 0 600 (Some ''A'') None] = None \<and>
   find_existing 0 900 ''home_based'' empty_session = None \<and>
   create_trip (+) [] 0 900 [activity_segment 1 0 600 ''walking'' 500, activity_segment 2 600 900 ''driving'' 500]
       1000 [] ''home_based'' empty_session
     = Inr \<lparr>trips = [\<lparr>trip_id = 1, trip_start_time = 0, trip_end_time = 900, is_multi_day = False,
                      total_distance_meters = 1000, primary_transport_mode = Some ''walking'',
                      detection_algorithm = ''home_based''\<rparr>],
            trip_destinations = [], trip_segments = [], trips_id_seq = 1,
            new_objects = [Link \<lparr>link_trip_id = 1, link_segment_id = 1, segment_order = 0\<rparr>,
                           Link \<lparr>link_trip_id = 1, link_segment_id = 2, segment_order = 1\<rparr>]\<rparr>"
proof -
  let ?tie = "[activity_segment 1 0 600 ''walking'' 500, activity_segment 2 600 900 ''driving'' 500]"
  let ?far = "[activity_segment 1 0 600 ''walking'' 100, activity_segment 2 600 900 ''driving'' 500]"
  let ?mix = "[activity_segment 1 0 600 ''walking'' 300, activity_segment 2 600 900 ''driving'' 500,
      activity_segment 3 900 1500 ''walking'' 300]"
  let ?stay = "[visit_segment 3 0 600 (Some ''A'') None]"
  let ?halves = "[activity_segment 1 0 600 ''walking'' (1 / 2), activity_segment 2 600 900 ''driving'' 1,
      activity_segment 3 900 1500 ''walking'' (1 / 2), activity_segment 4 1500 1600 ''walking'' (1 / 2)]"
  let ?s' = "\<lparr>trips = [\<lparr>trip_id = 1, trip_start_time = 0, trip_end_time = 900, is_multi_day = False,
                      total_distance_meters = 1000, primary_transport_mode = Some ''walking'',
                      detection_algorithm = ''home_based''\<rparr>],
            trip_destinations = [], trip_segments = [], trips_id_seq = 1,
            new_objects = [Link \<lparr>link_trip_id = 1, link_segment_id = 1, segment_order = 0\<rparr>,
                           Link \<lparr>link_trip_id = 1, link_segment_id = 2, segment_order = 1\<rparr>]\<rparr>"
  have acts: "activities_of ?tie \<noteq> []" "activities_of ?far \<noteq> []" "activities_of ?mix \<noteq> []"
    by (simp_all add: activities_of_def activity_segment_def)
  have none: "activities_of ?stay = []"
    by (simp add: activities_of_def visit_segment_def)
  have totals:
    "label_total (+) (activities_of ?tie) (Some ''driving'') = 500"
    "label_total (+) (activities_of ?tie) (Some ''walking'') = 500"
    "label_total (+) (activities_of ?far) (Some ''walking'') = 100"
    "label_total (+) (activities_of ?far) (Some ''driving'') = 500"
    "label_total (+) (activities_of ?mix) (Some ''walking'') = 600"
    "label_total (+) (activities_of ?mix) (Some ''driving'') = 500"
    by (simp_all add: label_total_def distance_of_def activities_of_def activity_segment_def)
  have labels:
    "map activity_type (activities_of ?tie) = [Some ''walking'', Some ''driving'']"
    "map activity_type (activities_of ?far) = [Some ''walking'', Some ''driving'']"
    "map activity_type (activities_of ?mix) = [Some ''walking'', Some ''driving'', Some ''walking'']"
    by (simp_all add: activities_of_def activity_segment_def)
  note tie = primary_mode_largest_sum_first_seen [where float_add = "(+)" and segs = ?tie
      and st = 0 and en = 900 and alg = "''home_based''" and s = empty_session and pl = "[]"
      and d = 1000 and dests = "[]" and s' = ?s']
  note far = primary_mode_largest_sum_first_seen [where float_add = "(+)" and segs = ?far]
  note mix = primary_mode_largest_sum_first_seen [where float_add = "(+)" and segs = ?mix]
  note stay = primary_mode_largest_sum_first_seen [where float_add = "(+)" and segs = ?stay]
  note halves = primary_mode_largest_sum_first_seen [where float_add = floor_add and segs = ?halves]
  have hacts: "activities_of ?halves \<noteq> []"
    by (simp add: activities_of_def activity_segment_def)
  have hlabels: "map activity_type (activities_of ?halves)
      = [Some ''walking'', Some ''driving'', Some ''walking'', Some ''walking'']"
    by (simp add: activities_of_def activity_segment_def)
  have htotals:
    "label_total floor_add (activities_of ?halves) (Some ''walking'') = 0"
    "label_total floor_add (activities_of ?halves) (Some ''driving'') = 1"
    by (simp_all add: label_total_def distance_of_def activities_of_def activity_segment_def
        floor_add_def)
  have pm_halves: "primary_mode_of floor_add ?halves = Some ''driving''"
  proof (rule ccontr)
    assume other: "primary_mode_of floor_add ?halves \<noteq> Some ''driving''"
    with halves hacts have "primary_mode_of floor_add ?halves = Some ''walking''"
      by (auto simp: hlabels)
    with halves hacts show False by (auto simp: hlabels htotals)
  qed
  have pm_tie: "primary_mode_of (+) ?tie = Some ''walking''"
  proof (rule ccontr)
    assume other: "primary_mode_of (+) ?tie \<noteq> Some ''walking''"
    with tie acts(1) have "primary_mode_of (+) ?tie = Some ''driving''" by (auto simp: labels)
    with tie acts(1) show False by (auto simp: labels totals)
  qed
  have pm_far: "primary_mode_of (+) ?far = Some ''driving''"
  proof (rule ccontr)
    assume other: "primary_mode_of (+) ?far \<noteq> Some ''driving''"
    with far acts(2) have "primary_mode_of (+) ?far = Some ''walking''" by (auto simp: labels)
    with far acts(2) show False by (auto simp: labels totals)
  qed
  have pm_mix: "primary_mode_of (+) ?mix = Some ''walking''"
  proof (rule ccontr)
    assume other: "primary_mode_of (+) ?mix \<noteq> Some ''walking''"
    with mix acts(3) have "primary_mode_of (+) ?mix = Some ''driving''" by (auto simp: labels)
    with mix acts(3) show False by (auto simp: labels totals)
  qed
  from stay none have absent: "primary_mode_of (+) ?stay = None" by blast
  have fresh: "find_existing 0 900 ''home_based'' empty_session = None"
    by (simp add: find_existing_def empty_session_def)
  have made: "create_trip (+) [] 0 900 ?tie 1000 [] ''home_based'' empty_session = Inr ?s'"
    by (simp add: create_trip_def find_existing_def add_trip_and_flush_def flush_def empty_session_def
        add_all_def destination_rows_def segment_rows_def date_of_def pm_tie)
      (simp add: activity_segment_def)
  from tie fresh made have "primary_transport_mode (last (trips ?s')) = primary_mode_of (+) ?tie"
    by blast
  from pm_tie totals(1,2) pm_far totals(3,4) pm_mix totals(5) pm_halves htotals absent fresh made
  show ?thesis by simp
qed

section \<open>Flushing and committing\<close>

lemma flush_objects_new_objects: "flush_objects pl obs s = Inr s' \<Longrightarrow> new_objects s' = new_objects s"
proof (induction obs arbitrary: s)
  case Nil
  then show ?case by simp
next
  case (Cons ob obs)
  then obtain s1 where s1: "insert_object pl ob s = Inr s1" and rest: "flush_objects pl obs s1 = Inr s'"
    by (auto split: sum.splits)
  from s1 have "new_objects s1 = new_objects s" by (cases ob) (auto split: if_splits)
  with Cons.IH [OF rest] show ?case by simp
qed

lemma commit_clean: "new_objects s = [] \<Longrightarrow> commit pl s = Inr s"
  by (simp add: commit_def flush_def)

lemma commit_new_objects: "commit pl s = Inr s' \<Longrightarrow> new_objects s' = []"
  unfolding commit_def flush_def by (drule flush_objects_new_objects) simp

section \<open>Effects of materialization and of the loop bodies\<close>

lemma find_existing_None:
  "find_existing st en alg s = None \<longleftrightarrow> (st, en, alg) \<notin> trip_key ` set (trips s)"
  by (auto simp: find_existing_def find_None_iff trip_key_def image_iff)

lemma create_trip_skip:
  "(st, en, alg) \<in> trip_key ` set (trips s) \<Longrightarrow> create_trip float_add pl st en segs d ds alg s = Inr s"
proof -
  assume "(st, en, alg) \<in> trip_key ` set (trips s)"
  then have "find_existing st en alg s \<noteq> None" by (simp add: find_existing_None)
  then show ?thesis by (auto simp: create_trip_def)
qed

lemma create_trip_created:
  assumes "create_trip float_add pl st en segs d ds alg s = Inr s'"
  shows "created s s' (st, en, alg)"
proof (cases "(st, en, alg) \<in> trip_key ` set (trips s)")
  case True
  with assms show ?thesis by (simp add: create_trip_skip created_def)
next
  case False
  then have none: "find_existing st en alg s = None" by (simp add: find_existing_None)
  with assms obtain tid s1 where
    flushed: "add_trip_and_flush pl
       \<lparr>trip_id = 0, trip_start_time = st, trip_end_time = en,
        is_multi_day = (date_of en > date_of st), total_distance_meters = d,
        primary_transport_mode = primary_mode_of float_add segs, detection_algorithm = alg\<rparr> s = Inr (tid, s1)"
    and s': "s' = add_all (destination_rows tid ds @ segment_rows tid segs) s1"
    by (auto simp: create_trip_def split: sum.splits)
  from add_trip_and_flush_trips [OF flushed] s' False show ?thesis
    by (simp add: created_def add_all_def trip_key_def)
qed

lemma created_keys: "created s s' k \<Longrightarrow> trip_key ` set (trips s') = insert k (trip_key ` set (trips s))"
  by (auto simp: created_def split: if_splits)

lemma created_distinct:
  "created s s' k \<Longrightarrow> distinct (map trip_key (trips s)) \<Longrightarrow> distinct (map trip_key (trips s'))"
  by (auto simp: created_def split: if_splits)

lemma created_bounds:
  "created s s' (st, en, alg) \<Longrightarrow> st \<le> en \<Longrightarrow>
   \<forall>t \<in> set (trips s). trip_start_time t \<le> trip_end_time t \<Longrightarrow>
   \<forall>t \<in> set (trips s'). trip_start_time t \<le> trip_end_time t"
  by (auto simp: created_def trip_key_def split: if_splits)

lemma memory_body_skip:
  "(start_time g, end_time g, ''timeline_memory'') \<in> trip_key ` set (trips s) \<Longrightarrow>
   memory_body pl (m, g) (n, s) = Inr (n, s)"
proof -
  assume "(start_time g, end_time g, ''timeline_memory'') \<in> trip_key ` set (trips s)"
  then have "find_existing (start_time g) (end_time g) ''timeline_memory'' s \<noteq> None"
    by (simp add: find_existing_None)
  then show ?thesis by (auto simp: memory_body_def)
qed

lemma memory_body_created:
  assumes "memory_body pl (m, g) (n, s) = Inr (n', s')"
  shows "created s s' (start_time g, end_time g, ''timeline_memory'')"
proof (cases "(start_time g, end_time g, ''timeline_memory'') \<in> trip_key ` set (trips s)")
  case True
  with assms show ?thesis by (simp add: memory_body_skip created_def)
next
  case False
  then have none: "find_existing (start_time g) (end_time g) ''timeline_memory'' s = None"
    by (simp add: find_existing_None)
  with assms obtain tid s1 trip where
    flushed: "add_trip_and_flush pl trip s = Inr (tid, s1)"
    and trip: "trip_start_time trip = start_time g" "trip_end_time trip = end_time g"
      "detection_algorithm trip = ''timeline_memory''"
    and s': "trips s' = trips s1"
    by (auto simp: memory_body_def add_all_def split: sum.splits)
  from add_trip_and_flush_trips [OF flushed] s' False trip show ?thesis
    by (simp add: created_def trip_key_def)
qed

lemma for_each_rule:
  assumes "for_each body xs st = Inr st'" and "I xs st"
    and "\<And>x rest st st'. I (x # rest) st \<Longrightarrow> body x st = Inr st' \<Longrightarrow> I rest st'"
  shows "I [] st'"
  using assms(1,2)
proof (induction xs arbitrary: st)
  case Nil
  then show ?case by simp
next
  case (Cons x xs)
  from Cons.prems(1) obtain st1 where st1: "body x st = Inr st1" and rest: "for_each body xs st1 = Inr st'"
    by (auto split: sum.splits)
  from assms(3) [OF Cons.prems(2) st1] have "I xs st1" .
  from Cons.IH [OF rest this] show ?case .
qed

lemma for_each_append:
  "for_each body (xs @ ys) st =
     (case for_each body xs st of Inl e \<Rightarrow> Inl e | Inr st' \<Rightarrow> for_each body ys st')"
  by (induction xs arbitrary: st) (auto split: sum.splits)

lemma home_body_effect:
  assumes "home_body float_add st_distance iter pl profile km h x (acc, s) = Inr (acc', s')"
  shows "s' = s \<or>
     (is_home st_distance profile x \<and> current_trip_segments acc \<noteq> [] \<and>
      created s s' (start_time (hd (current_trip_segments acc)), start_time x, ''home_based''))"
  using assms
  by (auto simp: home_body_def Let_def split: if_splits list.splits sum.splits
      dest!: create_trip_created)

lemma create_overnight_trip_effect:
  assumes "create_overnight_trip float_add pl vs s = Inr s'"
  shows "s' = s \<or>
     (vs \<noteq> [] \<and> created s s' (start_time (snd (hd vs)), end_time (snd (last vs)), ''overnight''))"
  using assms
  by (auto simp: create_overnight_trip_def split: list.splits dest!: create_trip_created)

lemma overnight_body_effect:
  assumes "overnight_body float_add pl min_nights x ((cur, n), s) = Inr ((cur', n'), s')"
  shows "s' = s \<or>
     (cur \<noteq> [] \<and> created s s' (start_time (snd (hd cur)), end_time (snd (last cur)), ''overnight''))"
  using assms
  by (auto simp: overnight_body_def Let_def split: if_splits sum.splits
      dest!: create_overnight_trip_effect)

lemma create_clustered_trip_effect:
  assumes "create_clustered_trip float_add iter pl segs s = Inr s'"
  shows "s' = s \<or>
     (segs \<noteq> [] \<and> created s s' (start_time (hd segs), end_time (last segs), ''distance_based''))"
  using assms
  by (auto simp: create_clustered_trip_def split: list.splits dest!: create_trip_created)

lemma distance_body_effect:
  assumes "distance_body float_add iter pl gap x ((cur, n), s) = Inr ((cur', n'), s')"
  shows "s' = s \<or>
     (cur \<noteq> [] \<and> created s s' (start_time (hd cur), end_time (last cur), ''distance_based''))"
  using assms
  by (auto simp: distance_body_def Let_def split: if_splits sum.splits
      dest!: create_clustered_trip_effect)

lemma commit_trips: "commit pl s = Inr s' \<Longrightarrow> trips s' = trips s"
  unfolding commit_def by (rule flush_trips)

lemma commit_count_trips: "commit_count pl n s = Inr (n', s') \<Longrightarrow> trips s' = trips s \<and> n' = n"
  by (auto simp: commit_count_def split: sum.splits dest: commit_trips)

lemma created_new:
  "created s s' (st, en, alg) \<Longrightarrow> t \<in> set (trips s') \<Longrightarrow>
   t \<in> set (trips s) \<or>
   (trip_start_time t = st \<and> trip_end_time t = en \<and> detection_algorithm t = alg)"
  by (auto simp: created_def trip_key_def split: if_splits)

section \<open>Overnight-stay detection\<close>

text \<open>
  C10. The overnight count is the number of accepted groups, not of trips written: with a
  home reference set, no overnight candidate at all and \<open>min_nights\<close> at most 0 (in
  particular 0), the trailing flush accepts the empty group, the creation helper returns
  on the empty visit list without writing, and the detector returns 1 with the store
  unchanged.
\<close>

theorem overnight_count_of_empty_trailing_group:
  "\<not> no_home (user_profile rp) \<Longrightarrow>
   overnight_visits st_distance rp (the (user_profile rp)) start_date end_date = [] \<Longrightarrow>
   min_nights \<le> 0 \<Longrightarrow> new_objects s = [] \<Longrightarrow>
     create_overnight_trip float_add (places rp) [] s = Inr s \<and>
     detect_overnight_trips float_add st_distance rp start_date end_date min_nights s = Inr (1, s)"
  by (simp add: detect_overnight_trips_def create_overnight_trip_def commit_count_def commit_clean)

theorem overnight_count_of_empty_trailing_group_witness:
  "\<not> no_home (user_profile quiet_repository) \<and>
   overnight_visits grid_distance quiet_repository (the (user_profile quiet_repository)) None None = [] \<and>
   new_objects empty_session = [] \<and>
   trips empty_session = [] \<and>
   detect_overnight_trips (+) grid_distance quiet_repository None None 0 empty_session = Inr (1, empty_session)"
proof -
  have h1: "\<not> no_home (user_profile quiet_repository)"
    by (simp add: no_home_def quiet_repository_def home_by_id_def truthy_def)
  have h2: "overnight_visits grid_distance quiet_repository (the (user_profile quiet_repository)) None None = []"
    by (simp add: overnight_visits_def overnight_query_def visit_rows_def quiet_repository_def
        List.map_filter_simps)
  have h3: "(0::int) \<le> 0" by simp
  have h4: "new_objects empty_session = []" by (simp add: empty_session_def)
  have h5: "trips empty_session = []" by (simp add: empty_session_def)
  from overnight_count_of_empty_trailing_group [OF h1 h2 h3 h4] h1 h2 h4 h5 show ?thesis by blast
qed

lemma two_nights_candidates:
  "overnight_visits grid_distance two_nights_same_place home_by_id None None =
     [(\<lparr>place_id = Some ''P'', location = None\<rparr>, visit_segment 1 72000 115200 (Some ''P'') None),
      (\<lparr>place_id = Some ''P'', location = None\<rparr>, visit_segment 2 158400 201600 (Some ''P'') None)]"
  by (simp add: overnight_visits_def overnight_query_def visit_rows_def two_nights_same_place_def
        List.map_filter_simps home_by_id_def use_distance_based_def sql_ne_def hour_of_def in_range_def
        visit_segment_def)

text \<open>
  C7. Two candidate nights at the same place \<open>P\<close> form one group; the helper hands the
  destination list \<open>[P, P]\<close> (duplicates retained) to \<open>create_trip\<close>, whose two
  destination rows share the primary key \<open>(trip_id, place_id)\<close>: the commit raises and
  nothing is persisted.
\<close>

theorem repeated_overnight_place_not_persisted:
  "create_overnight_trip (+) [''P'']
       (overnight_visits grid_distance two_nights_same_place home_by_id None None) empty_session
     = create_trip (+) [''P''] 72000 201600
         [visit_segment 1 72000 115200 (Some ''P'') None, visit_segment 2 158400 201600 (Some ''P'') None]
         0 [''P'', ''P''] ''overnight'' empty_session \<and>
   detect_overnight_trips (+) grid_distance two_nights_same_place None None 1 empty_session
     = Inl IntegrityError"
proof -
  have "create_overnight_trip (+) [''P'']
       (overnight_visits grid_distance two_nights_same_place home_by_id None None) empty_session
     = create_trip (+) [''P''] 72000 201600
         [visit_segment 1 72000 115200 (Some ''P'') None, visit_segment 2 158400 201600 (Some ''P'') None]
         0 [''P'', ''P''] ''overnight'' empty_session"
    by (simp add: two_nights_candidates create_overnight_trip_def truthy_def)
      (simp add: visit_segment_def)
  moreover have "detect_overnight_trips (+) grid_distance two_nights_same_place None None 1 empty_session
     = Inl IntegrityError"
    unfolding detect_overnight_trips_def
    apply (simp add: no_home_def two_nights_same_place_def home_by_id_def truthy_def
        two_nights_candidates [unfolded two_nights_same_place_def home_by_id_def])
    apply (simp add: overnight_body_def visit_segment_def create_overnight_trip_def truthy_def
        create_trip_def find_existing_def empty_session_def add_trip_and_flush_def flush_def
        add_all_def destination_rows_def segment_rows_def date_of_def commit_count_def commit_def
        primary_mode_of_def)
    done
  ultimately show ?thesis by blast
qed

lemma set_visit_rows: "(v, g) \<in> set (visit_rows segs) \<longleftrightarrow> g \<in> set segs \<and> visit g = Some v"
  by (induction segs) (auto simp: visit_rows_def List.map_filter_simps split: option.splits)

text \<open>
  C3 as stated fails. A stay from 21:00 to 09:00 away from home lasts 12 hours and starts after 20:00, so the
  disjunctive night window holds; the detector does not select it.
\<close>

theorem overnight_candidate_either_counterexample:
  "end_time (visit_segment 1 75600 118800 (Some ''P'') None)
     - start_time (visit_segment 1 75600 118800 (Some ''P'') None) \<ge> 6 * 3600 \<and>
   away_from_home grid_distance home_by_id \<lparr>place_id = Some ''P'', location = None\<rparr> \<and>
   night_window_either (visit_segment 1 75600 118800 (Some ''P'') None) \<and>
   (\<lparr>place_id = Some ''P'', location = None\<rparr>, visit_segment 1 75600 118800 (Some ''P'') None)
     \<in> set (visit_rows (timeline_segments late_riser)) \<and>
   overnight_visits grid_distance late_riser home_by_id None None = []"
  by (simp add: overnight_visits_def overnight_query_def visit_rows_def late_riser_def
        List.map_filter_simps home_by_id_def use_distance_based_def sql_ne_def hour_of_def in_range_def
        visit_segment_def away_from_home_def night_window_either_def)

text \<open>
  C3 (amended). A visit is an overnight candidate if and only if it lies in the date
  range, lasts at least 6 hours, is away from home under the resolved mode, and its start
  hour is at least 20 AND its end hour is at most 8.
\<close>

theorem overnight_candidate_iff:
  "(v, g) \<in> set (overnight_visits st_distance rp profile start_date end_date) \<longleftrightarrow>
     g \<in> set (timeline_segments rp) \<and> visit g = Some v \<and> in_range start_date end_date g \<and>
     end_time g - start_time g \<ge> 6 * 3600 \<and> night_window_both g \<and>
     away_from_home st_distance profile v"
proof (cases "use_distance_based profile")
  case True
  then obtain home where home: "home_location profile = Some home"
    by (auto simp: use_distance_based_def)
  have "far_from_home st_distance profile v = away_from_home st_distance profile v"
    using True home by (auto simp: far_from_home_def away_from_home_def Let_def split: option.splits)
  then show ?thesis
    using True
    by (auto simp: overnight_visits_def overnight_query_def set_visit_rows night_window_both_def)
next
  case False
  have "sql_ne (place_id v) (home_place_id profile) = away_from_home st_distance profile v"
    using False by (auto simp: sql_ne_def away_from_home_def split: option.splits)
  then show ?thesis
    using False
    by (auto simp: overnight_visits_def overnight_query_def set_visit_rows night_window_both_def)
qed

theorem overnight_candidate_iff_witness:
  "(\<lparr>place_id = Some ''P'', location = None\<rparr>, visit_segment 1 72000 115200 (Some ''P'') None)
     \<in> set (overnight_visits grid_distance two_nights_same_place home_by_id None None) \<and>
   night_window_both (visit_segment 1 72000 115200 (Some ''P'') None) \<and>
   away_from_home grid_distance home_by_id \<lparr>place_id = Some ''P'', location = None\<rparr> \<and>
   (\<lparr>place_id = Some ''P'', location = None\<rparr>, visit_segment 1 75600 118800 (Some ''P'') None)
     \<notin> set (overnight_visits grid_distance late_riser home_by_id None None) \<and>
   night_window_both (visit_segment 1 75600 118800 (Some ''P'') None) = False"
proof -
  let ?v = "\<lparr>place_id = Some ''P'', location = None\<rparr>"
  let ?g = "visit_segment 1 72000 115200 (Some ''P'') None"
  let ?late = "visit_segment 1 75600 118800 (Some ''P'') None"
  have both: "night_window_both ?g" by (simp add: night_window_both_def visit_segment_def hour_of_def)
  have away: "away_from_home grid_distance home_by_id ?v"
    by (simp add: away_from_home_def home_by_id_def use_distance_based_def)
  have rest: "?g \<in> set (timeline_segments two_nights_same_place) \<and> visit ?g = Some ?v \<and>
      in_range None None ?g \<and> end_time ?g - start_time ?g \<ge> 6 * 3600"
    by (simp add: two_nights_same_place_def visit_segment_def in_range_def)
  have not_both: "night_window_both ?late = False"
    by (simp add: night_window_both_def visit_segment_def hour_of_def)
  from overnight_candidate_iff [of ?v ?g grid_distance two_nights_same_place home_by_id None None]
    both away rest
  have sel: "(?v, ?g) \<in> set (overnight_visits grid_distance two_nights_same_place home_by_id None None)"
    by blast
  from overnight_candidate_iff [of ?v ?late grid_distance late_riser home_by_id None None] not_both
  have unsel: "(?v, ?late) \<notin> set (overnight_visits grid_distance late_riser home_by_id None None)"
    by blast
  from sel both away unsel not_both show ?thesis by blast
qed

section \<open>Home classification\<close>

text \<open>
  C5. In coordinate mode a visit whose location is the home coordinate itself lies at
  distance 0, which is less than 1 km, yet \<open>is_home\<close> answers no: the distance 0 is
  false in \<open>distance and (distance / 1000) < 1.0\<close>.
\<close>

theorem visit_at_home_point_not_home:
  "grid_distance (0, 0) (0, 0) / 1000 < 1 \<and>
   is_home grid_distance home_by_point (visit_segment 1 0 3600 (Some ''H'') (Some (0, 0))) = False"
  by (simp add: is_home_def grid_distance_def home_by_point_def visit_segment_def use_distance_based_def)

section \<open>The dedup key\<close>

lemma memory_loop_distinct:
  assumes "for_each (memory_body pl) xs (n, s) = Inr (n', s')"
    and "distinct (map trip_key (trips s))"
  shows "distinct (map trip_key (trips s'))"
proof -
  have "(\<lambda>xs st. distinct (map trip_key (trips (snd st)))) [] (n', s')"
  proof (rule for_each_rule [OF assms(1)])
    show "distinct (map trip_key (trips (snd (n, s))))" using assms(2) by simp
  next
    fix x rest st st'
    assume inv: "distinct (map trip_key (trips (snd st)))" and step: "memory_body pl x st = Inr st'"
    obtain m g where x: "x = (m, g)" by (cases x)
    obtain k t where st: "st = (k, t)" by (cases st)
    obtain k' t' where st': "st' = (k', t')" by (cases st')
    from step have "created t t' (start_time g, end_time g, ''timeline_memory'')"
      unfolding x st st' by (rule memory_body_created)
    from created_distinct [OF this] inv show "distinct (map trip_key (trips (snd st')))"
      by (simp add: st st')
  qed
  then show ?thesis by simp
qed

lemma home_loop_distinct:
  assumes "for_each (home_body float_add st_distance iter pl profile km h) xs (acc, s) = Inr (acc', s')"
    and "distinct (map trip_key (trips s))"
  shows "distinct (map trip_key (trips s'))"
proof -
  have "(\<lambda>xs st. distinct (map trip_key (trips (snd st)))) [] (acc', s')"
  proof (rule for_each_rule [OF assms(1)])
    show "distinct (map trip_key (trips (snd (acc, s))))" using assms(2) by simp
  next
    fix x rest st st'
    assume inv: "distinct (map trip_key (trips (snd st)))"
      and step: "home_body float_add st_distance iter pl profile km h x st = Inr st'"
    obtain a t where st: "st = (a, t)" by (cases st)
    obtain a' t' where st': "st' = (a', t')" by (cases st')
    from home_body_effect [OF step [unfolded st st']] inv
    show "distinct (map trip_key (trips (snd st')))"
      by (auto simp: st st' dest: created_distinct)
  qed
  then show ?thesis by simp
qed

lemma overnight_loop_distinct:
  assumes "for_each (overnight_body float_add pl min_nights) xs (acc, s) = Inr (acc', s')"
    and "distinct (map trip_key (trips s))"
  shows "distinct (map trip_key (trips s'))"
proof -
  have "(\<lambda>xs st. distinct (map trip_key (trips (snd st)))) [] (acc', s')"
  proof (rule for_each_rule [OF assms(1)])
    show "distinct (map trip_key (trips (snd (acc, s))))" using assms(2) by simp
  next
    fix x rest st st'
    assume inv: "distinct (map trip_key (trips (snd st)))"
      and step: "overnight_body float_add pl min_nights x st = Inr st'"
    obtain cur n t where st: "st = ((cur, n), t)" by (cases st) auto
    obtain cur' n' t' where st': "st' = ((cur', n'), t')" by (cases st') auto
    from overnight_body_effect [OF step [unfolded st st']] inv
    show "distinct (map trip_key (trips (snd st')))"
      by (auto simp: st st' dest: created_distinct)
  qed
  then show ?thesis by simp
qed

lemma distance_loop_distinct:
  assumes "for_each (distance_body float_add iter pl gap) xs (acc, s) = Inr (acc', s')"
    and "distinct (map trip_key (trips s))"
  shows "distinct (map trip_key (trips s'))"
proof -
  have "(\<lambda>xs st. distinct (map trip_key (trips (snd st)))) [] (acc', s')"
  proof (rule for_each_rule [OF assms(1)])
    show "distinct (map trip_key (trips (snd (acc, s))))" using assms(2) by simp
  next
    fix x rest st st'
    assume inv: "distinct (map trip_key (trips (snd st)))"
      and step: "distance_body float_add iter pl gap x st = Inr st'"
    obtain cur n t where st: "st = ((cur, n), t)" by (cases st) auto
    obtain cur' n' t' where st': "st' = ((cur', n'), t')" by (cases st') auto
    from distance_body_effect [OF step [unfolded st st']] inv
    show "distinct (map trip_key (trips (snd st')))"
      by (auto simp: st st' dest: created_distinct)
  qed
  then show ?thesis by simp
qed

lemma invoke_distinct:
  assumes "invoke float_add st_distance iter c s = Inr (n, s')" and "distinct (map trip_key (trips s))"
  shows "distinct (map trip_key (trips s'))"
proof (cases c)
  case (RunMemory rp sd ed)
  with assms(1) obtain k t where
    loop: "for_each (memory_body (places rp)) (memory_query rp sd ed) (0, s) = Inr (k, t)"
    and fin: "commit_count (places rp) k t = Inr (n, s')"
    by (auto simp: detect_timeline_memory_trips_def split: sum.splits)
  from memory_loop_distinct [OF loop assms(2)] commit_count_trips [OF fin] show ?thesis by simp
next
  case (RunHome rp sd ed km h)
  show ?thesis
  proof (cases "no_home (user_profile rp)")
    case True
    with assms RunHome show ?thesis by (simp add: detect_home_based_trips_def)
  next
    case False
    with assms(1) RunHome obtain acc t where
      loop: "for_each (home_body float_add st_distance iter (places rp) (the (user_profile rp)) km h)
               (home_query rp sd ed) (home_init, s) = Inr (acc, t)"
      and fin: "commit_count (places rp) (home_trip_count acc) t = Inr (n, s')"
      by (auto simp: detect_home_based_trips_def split: sum.splits)
    from home_loop_distinct [OF loop assms(2)] commit_count_trips [OF fin] show ?thesis by simp
  qed
next
  case (RunOvernight rp sd ed mn)
  show ?thesis
  proof (cases "no_home (user_profile rp)")
    case True
    with assms RunOvernight show ?thesis by (simp add: detect_overnight_trips_def)
  next
    case False
    with assms(1) RunOvernight obtain cur k t where
      loop: "for_each (overnight_body float_add (places rp) mn)
               (overnight_visits st_distance rp (the (user_profile rp)) sd ed) (([], 0), s)
             = Inr ((cur, k), t)"
      and fin: "(if int (length cur) \<ge> mn then
                  (case create_overnight_trip float_add (places rp) cur t of
                     Inl e \<Rightarrow> Inl e
                   | Inr t' \<Rightarrow> commit_count (places rp) (k + 1) t')
                else commit_count (places rp) k t) = Inr (n, s')"
      by (auto simp: detect_overnight_trips_def split: sum.splits)
    from overnight_loop_distinct [OF loop assms(2)] have t: "distinct (map trip_key (trips t))" .
    from fin t show ?thesis
      by (auto split: if_splits sum.splits
          dest!: create_overnight_trip_effect commit_count_trips dest: created_distinct)
  qed
next
  case (RunDistance rp sd ed km gap)
  show ?thesis
  proof (cases "user_profile rp")
    case None
    with assms RunDistance show ?thesis by (simp add: detect_distance_based_trips_def)
  next
    case (Some profile)
    show ?thesis
    proof (cases "home_location profile")
      case None
      with assms RunDistance Some show ?thesis by (simp add: detect_distance_based_trips_def)
    next
      case (Some home)
      with assms(1) RunDistance \<open>user_profile rp = Some profile\<close> obtain cur k t where
        loop: "for_each (distance_body float_add iter (places rp) gap)
                 (filter (is_far st_distance home km) (distance_query rp sd ed)) (([], 0), s)
               = Inr ((cur, k), t)"
        and fin: "(if length cur \<ge> 2 then
                    (case create_clustered_trip float_add iter (places rp) cur t of
                       Inl e \<Rightarrow> Inl e
                     | Inr t' \<Rightarrow> commit_count (places rp) (k + 1) t')
                  else commit_count (places rp) k t) = Inr (n, s')"
        by (auto simp: detect_distance_based_trips_def split: sum.splits)
      from distance_loop_distinct [OF loop assms(2)] have t: "distinct (map trip_key (trips t))" .
      from fin t show ?thesis
        by (auto split: if_splits sum.splits
            dest!: create_clustered_trip_effect commit_count_trips dest: created_distinct)
    qed
  qed
qed

lemma run_all_distinct:
  "distinct (map trip_key (trips s)) \<Longrightarrow> distinct (map trip_key (trips (run_all float_add st_distance iter calls s)))"
proof (induction calls arbitrary: s)
  case Nil
  then show ?case by simp
next
  case (Cons c calls)
  show ?case
  proof (cases "invoke float_add st_distance iter c s")
    case (Inl e)
    with Cons show ?thesis by simp
  next
    case (Inr r)
    obtain n s' where r: "r = (n, s')" by (cases r)
    from invoke_distinct [OF Inr [unfolded r] Cons.prems] have "distinct (map trip_key (trips s'))" .
    from Cons.IH [OF this] Inr r show ?thesis by simp
  qed
qed

lemma one_memory_first_run:
  "detect_timeline_memory_trips one_memory None None empty_session = Inr (1, one_memory_store)"
  by (simp add: detect_timeline_memory_trips_def one_memory_def memory_query_def in_range_def
      memory_segment_def List.map_filter_simps memory_body_def find_existing_def empty_session_def
      add_trip_and_flush_def flush_def add_all_def destination_rows_def date_of_def
      commit_count_def commit_def one_memory_store_def)

lemma one_memory_second_run:
  "detect_timeline_memory_trips one_memory None None one_memory_store = Inr (0, one_memory_store)"
  by (simp add: detect_timeline_memory_trips_def one_memory_def memory_query_def in_range_def
      memory_segment_def List.map_filter_simps memory_body_def find_existing_def
      commit_count_def commit_def flush_def one_memory_store_def)

text \<open>
  C1. Whatever sequence of detector runs is applied (each with its own repository snapshot
  and arguments, repeated runs included; a run that raises commits nothing), a store with
  at most one trip row per (start_time, end_time, detection_algorithm) keeps that property.
  Every materialization looks the triple up first and writes nothing when a row with it
  exists: \<open>create_trip\<close> returns the session unchanged, and so does the inline
  creation of the memory detector.
\<close>

theorem trip_key_at_most_once:
  "(distinct (map trip_key (trips s)) \<longrightarrow>
      distinct (map trip_key (trips (run_all float_add st_distance iter calls s)))) \<and>
   (find_existing st en alg s \<noteq> None \<longrightarrow> create_trip float_add pl st en segs d ds alg s = Inr s) \<and>
   (find_existing (start_time g) (end_time g) ''timeline_memory'' s \<noteq> None \<longrightarrow>
      memory_body pl (m, g) (n, s) = Inr (n, s))"
  by (auto simp: run_all_distinct find_existing_None create_trip_skip memory_body_skip
      simp del: not_None_eq)

theorem trip_key_at_most_once_witness:
  "distinct (map trip_key (trips empty_session)) \<and>
   run_all (+) grid_distance rev [RunMemory one_memory None None, RunMemory one_memory None None] empty_session
     = one_memory_store \<and>
   distinct (map trip_key (trips one_memory_store)) \<and>
   find_existing 1000 5000 ''timeline_memory'' one_memory_store \<noteq> None \<and>
   create_trip (+) [] 1000 5000 [] 0 [] ''timeline_memory'' one_memory_store = Inr one_memory_store \<and>
   memory_body [] (\<lparr>distance_from_origin_kms = None, destination_place_ids = None\<rparr>,
        memory_segment 1 1000 5000 (Some 12) [''A'', ''B'']) (0, one_memory_store)
     = Inr (0, one_memory_store)"
proof -
  let ?g = "memory_segment 1 1000 5000 (Some 12) [''A'', ''B'']"
  let ?m = "\<lparr>distance_from_origin_kms = None, destination_place_ids = None\<rparr>"
  have d0: "distinct (map trip_key (trips empty_session))" by (simp add: empty_session_def)
  have run: "run_all (+) grid_distance rev [RunMemory one_memory None None, RunMemory one_memory None None]
      empty_session = one_memory_store"
    by (simp add: one_memory_first_run one_memory_second_run)
  have found: "find_existing 1000 5000 ''timeline_memory'' one_memory_store \<noteq> None"
    by (simp add: find_existing_def one_memory_store_def)
  then have found': "find_existing (start_time ?g) (end_time ?g) ''timeline_memory'' one_memory_store \<noteq> None"
    by (simp add: memory_segment_def)
  note inst = trip_key_at_most_once [where s = empty_session and float_add = "(+)"
      and st_distance = grid_distance and iter = rev
      and calls = "[RunMemory one_memory None None, RunMemory one_memory None None]"]
  note inst' = trip_key_at_most_once [where s = one_memory_store and float_add = "(+)"
      and st = 1000 and en = 5000 and alg = "''timeline_memory''" and pl = "[]" and segs = "[]"
      and d = 0 and ds = "[]" and g = ?g and m = ?m and n = 0]
  from inst d0 have d1: "distinct (map trip_key (trips one_memory_store))"
    unfolding run by blast
  from inst' found have skip: "create_trip (+) [] 1000 5000 [] 0 [] ''timeline_memory'' one_memory_store
      = Inr one_memory_store" by blast
  from inst' found' have skip': "memory_body [] (?m, ?g) (0, one_memory_store) = Inr (0, one_memory_store)"
    by blast
  from d0 run d1 found skip skip' show ?thesis by blast
qed

section \<open>Home-based segmentation\<close>

lemma home_body_away:
  "\<not> is_home st_distance profile x \<Longrightarrow>
   home_body float_add st_distance iter pl profile km h x (acc, s) = Inr (home_append float_add x acc, s)"
  by (simp add: home_body_def)

lemma home_append_count: "home_trip_count (fold (home_append float_add) tail acc) = home_trip_count acc"
  by (induction tail arbitrary: acc) (simp_all add: home_append_def)

lemma home_loop_away:
  "\<forall>g \<in> set tail. \<not> is_home st_distance profile g \<Longrightarrow>
   for_each (home_body float_add st_distance iter pl profile km h) tail (acc, s) = Inr (fold (home_append float_add) tail acc, s)"
  by (induction tail arbitrary: acc) (simp_all add: home_body_away)

lemma home_body_closing:
  assumes "home_body float_add st_distance iter pl profile km h x (acc, s) = Inr (acc', s')"
  shows "s' = s \<or>
     (is_home st_distance profile x \<and> current_trip_segments acc \<noteq> [] \<and>
      create_trip float_add pl (start_time (hd (current_trip_segments acc))) (start_time x)
        (current_trip_segments acc) (current_trip_distance acc) (iter (current_trip_destinations acc))
        ''home_based'' s = Inr s')"
  using assms
  by (auto simp: home_body_def Let_def split: if_splits list.splits sum.splits)

lemma home_body_segments:
  assumes "home_body float_add st_distance iter pl profile km h x (acc, s) = Inr (acc', s')"
  shows "current_trip_segments acc' =
     (if is_home st_distance profile x then [] else current_trip_segments acc @ [x])"
  using assms
  by (auto simp: home_body_def Let_def home_reset_def home_append_def
      split: if_splits list.splits sum.splits)

lemma visited_place_ids_snoc:
  "visited_place_ids (segs @ [g]) =
     visited_place_ids segs @
       (case visit g of
          None \<Rightarrow> []
        | Some v \<Rightarrow> if truthy (place_id v) then [the (place_id v)] else [])"
  by (auto simp: visited_place_ids_def split: option.splits)

lemma home_append_destinations:
  assumes "current_trip_destinations acc = set_of_list (visited_place_ids (current_trip_segments acc))"
  shows "current_trip_destinations (home_append float_add g acc) =
     set_of_list (visited_place_ids (current_trip_segments (home_append float_add g acc)))"
  using assms
  by (auto simp: home_append_def visited_place_ids_snoc set_of_list_snoc split: option.splits)

lemma home_body_destinations:
  assumes "home_body float_add st_distance iter pl profile km h x (acc, s) = Inr (acc', s')"
    and "current_trip_destinations acc = set_of_list (visited_place_ids (current_trip_segments acc))"
  shows "current_trip_destinations acc' = set_of_list (visited_place_ids (current_trip_segments acc'))"
proof (cases "is_home st_distance profile x")
  case False
  with assms(1) have "acc' = home_append float_add x acc" by (simp add: home_body_away)
  with home_append_destinations [OF assms(2)] show ?thesis by simp
next
  case True
  have empty: "set_of_list (visited_place_ids []) = []"
    by (simp add: visited_place_ids_def set_of_list_def)
  from True assms show ?thesis
    by (auto simp: home_body_def Let_def home_reset_def empty
        split: list.splits if_splits sum.splits)
qed

lemma home_loop_destinations:
  assumes "for_each (home_body float_add st_distance iter pl profile km h) pre (home_init, s0) = Inr (acc, s)"
  shows "current_trip_destinations acc = set_of_list (visited_place_ids (current_trip_segments acc))"
proof -
  let ?I = "\<lambda>(xs :: TimelineSegment list) (st :: home_acc \<times> session).
      current_trip_destinations (fst st) = set_of_list (visited_place_ids (current_trip_segments (fst st)))"
  have "?I [] (acc, s)"
  proof (rule for_each_rule [OF assms, where I = ?I])
    show "?I pre (home_init, s0)"
      by (simp add: home_init_def visited_place_ids_def set_of_list_def)
  next
    fix x rest st st'
    assume inv: "?I (x # rest) st" and step: "home_body float_add st_distance iter pl profile km h x st = Inr st'"
    obtain a t where st: "st = (a, t)" by (cases st)
    obtain a' t' where st': "st' = (a', t')" by (cases st')
    from home_body_destinations [OF step [unfolded st st']] inv show "?I rest st'"
      by (simp add: st st')
  qed
  then show ?thesis by simp
qed

lemma create_trip_pending:
  assumes "find_existing st en alg s = None" and "create_trip float_add pl st en segs d ds alg s = Inr s'"
  shows "new_objects s' = destination_rows (trips_id_seq s + 1) ds @ segment_rows (trips_id_seq s + 1) segs"
proof -
  from assms obtain tid s1 where
    flushed: "add_trip_and_flush pl
       \<lparr>trip_id = 0, trip_start_time = st, trip_end_time = en,
        is_multi_day = (date_of en > date_of st), total_distance_meters = d,
        primary_transport_mode = primary_mode_of float_add segs, detection_algorithm = alg\<rparr> s = Inr (tid, s1)"
    and s': "s' = add_all (destination_rows tid ds @ segment_rows tid segs) s1"
    by (auto simp: create_trip_def split: sum.splits)
  from flushed have "tid = trips_id_seq s + 1" and "new_objects s1 = []"
    by (auto simp: add_trip_and_flush_def Let_def flush_def split: sum.splits
        dest!: flush_objects_new_objects)
  with s' show ?thesis by (simp add: add_all_def)
qed

text \<open>
  C8 (amended). At every home visit that closes an accepted run, the destination list handed
  to \<open>create_trip\<close> (and queued for insertion in that order when the trip is new)
  holds each place identifier of the run's visits exactly once, in the order in which the
  Python set iterates: a duplicate-free enumeration whose order is not guaranteed.
\<close>

theorem home_destinations_deduplicated_unordered:
  assumes "valid_iteration iter"
    and "for_each (home_body float_add st_distance iter pl profile km h) pre (home_init, s0) = Inr (acc, s)"
    and "is_home st_distance profile x"
    and "current_trip_segments acc = first # others"
    and "current_trip_distance acc / 1000 \<ge> km"
    and "real_of_int (start_time x - start_time first) / 3600 \<ge> h"
  shows "home_body float_add st_distance iter pl profile km h x (acc, s) =
      (case create_trip float_add pl (start_time first) (start_time x) (current_trip_segments acc)
              (current_trip_distance acc)
              (iter (set_of_list (visited_place_ids (current_trip_segments acc)))) ''home_based'' s of
         Inl e \<Rightarrow> Inl e
       | Inr s' \<Rightarrow> Inr (home_reset (acc\<lparr>home_trip_count := home_trip_count acc + 1\<rparr>), s')) \<and>
     distinct (iter (set_of_list (visited_place_ids (current_trip_segments acc)))) \<and>
     set (iter (set_of_list (visited_place_ids (current_trip_segments acc))))
       = set (visited_place_ids (current_trip_segments acc)) \<and>
     (find_existing (start_time first) (start_time x) ''home_based'' s = None \<longrightarrow>
      (\<forall>s'. create_trip float_add pl (start_time first) (start_time x) (current_trip_segments acc)
              (current_trip_distance acc)
              (iter (set_of_list (visited_place_ids (current_trip_segments acc)))) ''home_based'' s = Inr s'
         \<longrightarrow> new_objects s' =
               destination_rows (trips_id_seq s + 1)
                 (iter (set_of_list (visited_place_ids (current_trip_segments acc)))) @
               segment_rows (trips_id_seq s + 1) (current_trip_segments acc)))"
proof -
  let ?ds = "iter (set_of_list (visited_place_ids (current_trip_segments acc)))"
  from home_loop_destinations [OF assms(2)]
  have dests: "current_trip_destinations acc = set_of_list (visited_place_ids (current_trip_segments acc))" .
  have call: "home_body float_add st_distance iter pl profile km h x (acc, s) =
      (case create_trip float_add pl (start_time first) (start_time x) (current_trip_segments acc)
              (current_trip_distance acc) ?ds ''home_based'' s of
         Inl e \<Rightarrow> Inl e
       | Inr s' \<Rightarrow> Inr (home_reset (acc\<lparr>home_trip_count := home_trip_count acc + 1\<rparr>), s'))"
    using assms(3-6) by (simp add: home_body_def Let_def dests)
  from assms(1) have "distinct ?ds \<and> set ?ds = set (set_of_list (visited_place_ids (current_trip_segments acc)))"
    unfolding valid_iteration_def using distinct_set_of_list by blast
  then have perm: "distinct ?ds" "set ?ds = set (visited_place_ids (current_trip_segments acc))"
    by (simp_all add: set_set_of_list)
  from call perm create_trip_pending show ?thesis by blast
qed

lemma valid_iteration_rev: "valid_iteration rev"
  by (simp add: valid_iteration_def)

lemma there_and_back_query:
  "home_query there_and_back None None =
     [visit_segment 1 0 1000 (Some ''H'') None,
      visit_segment 2 2000 3000 (Some ''A'') None,
      visit_segment 3 4000 5000 (Some ''B'') None,
      activity_segment 4 5000 20000 ''driving'' 60000,
      visit_segment 5 20000 30000 (Some ''H'') None]"
  by (simp add: home_query_def there_and_back_def in_range_def visit_segment_def activity_segment_def)

lemma there_and_back_pending:
  "for_each (home_body (+) grid_distance rev [''A'', ''B'', ''H''] home_by_id 50 4)
      [visit_segment 1 0 1000 (Some ''H'') None,
       visit_segment 2 2000 3000 (Some ''A'') None,
       visit_segment 3 4000 5000 (Some ''B'') None,
       activity_segment 4 5000 20000 ''driving'' 60000] (home_init, empty_session)
   = Inr (\<lparr>current_trip_segments =
             [visit_segment 2 2000 3000 (Some ''A'') None,
              visit_segment 3 4000 5000 (Some ''B'') None,
              activity_segment 4 5000 20000 ''driving'' 60000],
           current_trip_distance = 60000, current_trip_destinations = [''A'', ''B''],
           home_trip_count = 0\<rparr>, empty_session)"
  by (simp add: home_body_def is_home_def home_by_id_def use_distance_based_def truthy_def
      home_init_def home_append_def set_add_def or0_def visit_segment_def activity_segment_def)

lemma there_and_back_mode:
  "primary_mode_of (+)
     [visit_segment 2 2000 3000 (Some ''A'') None, visit_segment 3 4000 5000 (Some ''B'') None,
      activity_segment 4 5000 20000 ''driving'' 60000] = Some ''driving''"
  by (simp add: primary_mode_of_def visit_segment_def activity_segment_def or0_def)

lemma there_and_back_created:
  "create_trip (+) [''A'', ''B'', ''H''] 2000 20000
      [visit_segment 2 2000 3000 (Some ''A'') None, visit_segment 3 4000 5000 (Some ''B'') None,
       activity_segment 4 5000 20000 ''driving'' 60000] 60000 [''B'', ''A''] ''home_based'' empty_session
   = Inr (there_and_back_store\<lparr>trip_destinations := [], trip_segments := [],
          new_objects :=
            [Dest \<lparr>dest_trip_id = 1, dest_place_id = ''B'', visit_order = 0\<rparr>,
             Dest \<lparr>dest_trip_id = 1, dest_place_id = ''A'', visit_order = 1\<rparr>,
             Link \<lparr>link_trip_id = 1, link_segment_id = 2, segment_order = 0\<rparr>,
             Link \<lparr>link_trip_id = 1, link_segment_id = 3, segment_order = 1\<rparr>,
             Link \<lparr>link_trip_id = 1, link_segment_id = 4, segment_order = 2\<rparr>]\<rparr>)"
  by (simp add: create_trip_def find_existing_def empty_session_def add_trip_and_flush_def
        flush_def add_all_def destination_rows_def segment_rows_def date_of_def there_and_back_mode
        there_and_back_store_def)
     (simp add: visit_segment_def activity_segment_def)

lemma there_and_back_run:
  "detect_home_based_trips (+) grid_distance rev there_and_back None None 50 4 empty_session
     = Inr (1, there_and_back_store)"
proof -
  let ?a = "visit_segment 2 2000 3000 (Some ''A'') None"
  let ?b = "visit_segment 3 4000 5000 (Some ''B'') None"
  let ?d = "activity_segment 4 5000 20000 ''driving'' 60000"
  let ?acc = "\<lparr>current_trip_segments = [?a, ?b, ?d],
           current_trip_distance = 60000, current_trip_destinations = [''A'', ''B''],
           home_trip_count = 0\<rparr>"
  let ?body = "home_body (+) grid_distance rev [''A'', ''B'', ''H''] home_by_id 50 4"
  let ?pre = "[visit_segment 1 0 1000 (Some ''H'') None, ?a, ?b, ?d]"
  let ?h = "visit_segment 5 20000 30000 (Some ''H'') None"
  let ?queued = "there_and_back_store\<lparr>trip_destinations := [], trip_segments := [],
          new_objects :=
            [Dest \<lparr>dest_trip_id = 1, dest_place_id = ''B'', visit_order = 0\<rparr>,
             Dest \<lparr>dest_trip_id = 1, dest_place_id = ''A'', visit_order = 1\<rparr>,
             Link \<lparr>link_trip_id = 1, link_segment_id = 2, segment_order = 0\<rparr>,
             Link \<lparr>link_trip_id = 1, link_segment_id = 3, segment_order = 1\<rparr>,
             Link \<lparr>link_trip_id = 1, link_segment_id = 4, segment_order = 2\<rparr>]\<rparr>"
  have h: "is_home grid_distance home_by_id ?h"
    by (simp add: is_home_def home_by_id_def visit_segment_def use_distance_based_def truthy_def)
  have st: "start_time ?h = 20000" "start_time ?a = 2000"
    by (simp_all add: visit_segment_def)
  have closing: "?body ?h (?acc, empty_session) = Inr (home_reset (?acc\<lparr>home_trip_count := 1\<rparr>), ?queued)"
    by (simp add: home_body_def h st there_and_back_created)
  have "for_each ?body (?pre @ [?h]) (home_init, empty_session) =
      Inr (home_reset (?acc\<lparr>home_trip_count := 1\<rparr>), ?queued)"
    unfolding for_each_append there_and_back_pending by (simp add: closing)
  then show ?thesis
    unfolding detect_home_based_trips_def there_and_back_query
    by (simp add: there_and_back_def no_home_def home_by_id_def truthy_def commit_count_def
        commit_def flush_def there_and_back_store_def home_reset_def)
qed

text \<open>
  C8 as stated fails. With sets iterating in reverse insertion order, the run that visits \<open>A\<close> and then
  \<open>B\<close> is persisted with destinations \<open>B, A\<close>.
\<close>

theorem home_destinations_first_seen_counterexample:
  "valid_iteration rev \<and>
   detect_home_based_trips (+) grid_distance rev there_and_back None None 50 4 empty_session
     = Inr (1, there_and_back_store) \<and>
   map dest_place_id (trip_destinations there_and_back_store) = [''B'', ''A''] \<and>
   visited_place_ids
     [visit_segment 2 2000 3000 (Some ''A'') None, visit_segment 3 4000 5000 (Some ''B'') None,
      activity_segment 4 5000 20000 ''driving'' 60000] = [''A'', ''B'']"
  by (simp add: valid_iteration_rev there_and_back_run)
    (simp add: there_and_back_store_def visited_place_ids_def visit_segment_def activity_segment_def
      truthy_def)

theorem home_destinations_deduplicated_unordered_witness:
  "valid_iteration rev \<and>
   is_home grid_distance home_by_id (visit_segment 5 20000 30000 (Some ''H'') None) \<and>
   visited_place_ids
     [visit_segment 2 2000 3000 (Some ''A'') None, visit_segment 3 4000 5000 (Some ''B'') None,
      activity_segment 4 5000 20000 ''driving'' 60000] = [''A'', ''B''] \<and>
   distinct (rev (set_of_list [''A'', ''B''])) \<and>
   set (rev (set_of_list [''A'', ''B''])) = set [''A'', ''B''] \<and>
   rev (set_of_list [''A'', ''B'']) = [''B'', ''A'']"
proof -
  let ?a = "visit_segment 2 2000 3000 (Some ''A'') None"
  let ?b = "visit_segment 3 4000 5000 (Some ''B'') None"
  let ?d = "activity_segment 4 5000 20000 ''driving'' 60000"
  let ?h = "visit_segment 5 20000 30000 (Some ''H'') None"
  let ?acc = "\<lparr>current_trip_segments = [?a, ?b, ?d],
           current_trip_distance = 60000, current_trip_destinations = [''A'', ''B''],
           home_trip_count = 0\<rparr>"
  have h: "is_home grid_distance home_by_id ?h"
    by (simp add: is_home_def home_by_id_def visit_segment_def use_distance_based_def truthy_def)
  have v: "visited_place_ids [?a, ?b, ?d] = [''A'', ''B'']"
    by (simp add: visited_place_ids_def visit_segment_def activity_segment_def truthy_def)
  have segs: "current_trip_segments ?acc = ?a # [?b, ?d]" by simp
  have km: "current_trip_distance ?acc / 1000 \<ge> (50::real)" by simp
  have hours: "real_of_int (start_time ?h - start_time ?a) / 3600 \<ge> (4::real)"
    by (simp add: visit_segment_def)
  note inst = home_destinations_deduplicated_unordered
    [OF valid_iteration_rev there_and_back_pending h segs km hours]
  from inst have "distinct (rev (set_of_list (visited_place_ids [?a, ?b, ?d])))"
    and "set (rev (set_of_list (visited_place_ids [?a, ?b, ?d]))) = set (visited_place_ids [?a, ?b, ?d])"
    by simp_all
  then have d: "distinct (rev (set_of_list [''A'', ''B'']))"
    and s: "set (rev (set_of_list [''A'', ''B''])) = set [''A'', ''B'']"
    unfolding v by simp_all
  have r: "rev (set_of_list [''A'', ''B'']) = [''B'', ''A'']"
    by (simp add: set_of_list_def set_add_def)
  from valid_iteration_rev h v d s r show ?thesis by blast
qed

lemma trailing_run_snoc:
  "trailing_run home (pre @ [x]) = (if home x then [] else trailing_run home pre @ [x])"
  by (simp add: trailing_run_def)

lemma home_loop_at_home:
  "\<forall>g \<in> set homes. is_home st_distance profile g \<Longrightarrow>
   for_each (home_body float_add st_distance iter pl profile km h) homes (home_init, s)
     = Inr (home_init, s)"
  by (induction homes) (simp_all add: home_body_def home_init_def)

lemma home_loop_closed_runs:
  assumes "for_each (home_body float_add st_distance iter pl profile km h) stream (home_init, s0)
      = Inr (acc, s1)"
    and "t \<in> set (trips s1)"
  shows "t \<in> set (trips s0) \<or>
     (\<exists>pre x post. stream = pre @ x # post \<and> is_home st_distance profile x \<and>
        trailing_run (is_home st_distance profile) pre \<noteq> [] \<and>
        trip_start_time t = start_time (hd (trailing_run (is_home st_distance profile) pre)) \<and>
        trip_end_time t = start_time x \<and> detection_algorithm t = ''home_based'')"
proof -
  let ?home = "is_home st_distance profile"
  let ?closed = "\<lambda>t. \<exists>pre x post. stream = pre @ x # post \<and> ?home x \<and>
        trailing_run ?home pre \<noteq> [] \<and>
        trip_start_time t = start_time (hd (trailing_run ?home pre)) \<and>
        trip_end_time t = start_time x \<and> detection_algorithm t = ''home_based''"
  let ?I = "\<lambda>(rest :: TimelineSegment list) (st :: home_acc \<times> session).
      (\<exists>pre. stream = pre @ rest \<and> current_trip_segments (fst st) = trailing_run ?home pre) \<and>
      (\<forall>t \<in> set (trips (snd st)). t \<in> set (trips s0) \<or> ?closed t)"
  have "?I [] (acc, s1)"
  proof (rule for_each_rule [OF assms(1), where I = ?I])
    show "?I stream (home_init, s0)"
      by (simp add: home_init_def trailing_run_def)
  next
    fix x rest st st'
    assume inv: "?I (x # rest) st"
      and step: "home_body float_add st_distance iter pl profile km h x st = Inr st'"
    obtain a u where st: "st = (a, u)" by (cases st)
    obtain a' u' where st': "st' = (a', u')" by (cases st')
    from inv obtain pre where pre: "stream = pre @ x # rest"
      and cur: "current_trip_segments a = trailing_run ?home pre"
      and old: "\<forall>t \<in> set (trips u). t \<in> set (trips s0) \<or> ?closed t"
      by (auto simp: st)
    note step' = step [unfolded st st']
    have "stream = (pre @ [x]) @ rest" using pre by simp
    moreover have "current_trip_segments a' = trailing_run ?home (pre @ [x])"
      using home_body_segments [OF step'] cur by (simp add: trailing_run_snoc)
    moreover have "\<forall>t \<in> set (trips u'). t \<in> set (trips s0) \<or> ?closed t"
    proof
      fix t assume t: "t \<in> set (trips u')"
      from home_body_effect [OF step'] consider "u' = u"
        | "?home x" "current_trip_segments a \<noteq> []"
          "created u u' (start_time (hd (current_trip_segments a)), start_time x, ''home_based'')"
        by blast
      then show "t \<in> set (trips s0) \<or> ?closed t"
      proof cases
        case 1
        with t old show ?thesis by simp
      next
        case 2
        from created_new [OF 2(3) t] show ?thesis
        proof
          assume "t \<in> set (trips u)"
          with old show ?thesis by simp
        next
          assume "trip_start_time t = start_time (hd (current_trip_segments a)) \<and>
            trip_end_time t = start_time x \<and> detection_algorithm t = ''home_based''"
          with pre 2(1,2) cur have "?closed t" by (intro exI [of _ pre] exI [of _ x] exI [of _ rest]) simp
          then show ?thesis by simp
        qed
      qed
    qed
    ultimately show "?I rest st'" unfolding st' by (intro conjI exI [of _ "pre @ [x]"]) simp_all
  qed
  with assms(2) show ?thesis by simp
qed

text \<open>
  C6. In home-based detection a run of non-home segments that no home visit follows
  produces nothing, whatever distance and duration it accumulates: the detector returns the
  same count and store on a stream as on that stream with such a trailing run appended, and
  on a stream whose home visits all come before its other segments it returns 0 and leaves
  the store unchanged. Every trip the detector creates is closed by an observed home visit:
  its start is the start of the first segment after the previous home visit and its end is
  the start of the closing home segment.
\<close>

theorem home_trailing_run_creates_nothing:
  "(user_profile rp' = user_profile rp \<and> places rp' = places rp \<and>
    home_query rp start_date end_date = home_query rp' start_date end_date @ tail \<and>
    (\<forall>g \<in> set tail. \<not> is_home st_distance (the (user_profile rp)) g) \<longrightarrow>
      detect_home_based_trips float_add st_distance iter rp start_date end_date km h s =
      detect_home_based_trips float_add st_distance iter rp' start_date end_date km h s) \<and>
   (home_query rp start_date end_date = homes @ tail \<and>
    (\<forall>g \<in> set homes. is_home st_distance (the (user_profile rp)) g) \<and>
    (\<forall>g \<in> set tail. \<not> is_home st_distance (the (user_profile rp)) g) \<and> new_objects s = [] \<longrightarrow>
      detect_home_based_trips float_add st_distance iter rp start_date end_date km h s = Inr (0, s)) \<and>
   (detect_home_based_trips float_add st_distance iter rp start_date end_date km h s = Inr (n, s') \<longrightarrow>
      (\<forall>t \<in> set (trips s').
          t \<in> set (trips s) \<or>
          (\<exists>pre x post.
              home_query rp start_date end_date = pre @ x # post \<and>
              is_home st_distance (the (user_profile rp)) x \<and>
              trailing_run (is_home st_distance (the (user_profile rp))) pre \<noteq> [] \<and>
              trip_start_time t =
                start_time (hd (trailing_run (is_home st_distance (the (user_profile rp))) pre)) \<and>
              trip_end_time t = start_time x \<and> detection_algorithm t = ''home_based'')))"
proof (intro conjI impI)
  let ?profile = "the (user_profile rp)"
  let ?body = "home_body float_add st_distance iter (places rp) ?profile km h"
    assume a: "user_profile rp' = user_profile rp \<and> places rp' = places rp \<and>
      home_query rp start_date end_date = home_query rp' start_date end_date @ tail \<and>
      (\<forall>g \<in> set tail. \<not> is_home st_distance ?profile g)"
    then have tail: "\<forall>g \<in> set tail. \<not> is_home st_distance ?profile g" by simp
    have "for_each ?body (home_query rp' start_date end_date @ tail) (home_init, s) =
        (case for_each ?body (home_query rp' start_date end_date) (home_init, s) of
           Inl e \<Rightarrow> Inl e
         | Inr (acc', s') \<Rightarrow> Inr (fold (home_append float_add) tail acc', s'))"
      by (simp add: for_each_append home_loop_away [OF tail] split: sum.splits)
    with a show "detect_home_based_trips float_add st_distance iter rp start_date end_date km h s =
      detect_home_based_trips float_add st_distance iter rp' start_date end_date km h s"
      by (auto simp: detect_home_based_trips_def home_append_count split: sum.splits)
next
  let ?profile = "the (user_profile rp)"
  let ?body = "home_body float_add st_distance iter (places rp) ?profile km h"
    assume a: "home_query rp start_date end_date = homes @ tail \<and>
      (\<forall>g \<in> set homes. is_home st_distance ?profile g) \<and>
      (\<forall>g \<in> set tail. \<not> is_home st_distance ?profile g) \<and> new_objects s = []"
    then have homes: "\<forall>g \<in> set homes. is_home st_distance ?profile g"
      and tail: "\<forall>g \<in> set tail. \<not> is_home st_distance ?profile g"
      and clean: "new_objects s = []" by simp_all
    have "for_each ?body (homes @ tail) (home_init, s) = Inr (fold (home_append float_add) tail home_init, s)"
      by (simp add: for_each_append home_loop_at_home [OF homes] home_loop_away [OF tail])
    moreover have "home_trip_count (fold (home_append float_add) tail home_init) = 0"
      by (simp add: home_append_count home_init_def)
    ultimately show "detect_home_based_trips float_add st_distance iter rp start_date end_date km h s
        = Inr (0, s)"
      using a by (simp add: detect_home_based_trips_def commit_count_def commit_clean [OF clean])
next
  let ?profile = "the (user_profile rp)"
  let ?body = "home_body float_add st_distance iter (places rp) ?profile km h"
    assume run: "detect_home_based_trips float_add st_distance iter rp start_date end_date km h s
        = Inr (n, s')"
    show "\<forall>t \<in> set (trips s').
          t \<in> set (trips s) \<or>
          (\<exists>pre x post.
              home_query rp start_date end_date = pre @ x # post \<and>
              is_home st_distance ?profile x \<and>
              trailing_run (is_home st_distance ?profile) pre \<noteq> [] \<and>
              trip_start_time t = start_time (hd (trailing_run (is_home st_distance ?profile) pre)) \<and>
              trip_end_time t = start_time x \<and> detection_algorithm t = ''home_based'')"
    proof (cases "no_home (user_profile rp)")
      case True
      with run show ?thesis by (simp add: detect_home_based_trips_def)
    next
      case False
      with run obtain acc u where
        loop: "for_each ?body (home_query rp start_date end_date) (home_init, s) = Inr (acc, u)"
        and fin: "commit_count (places rp) (home_trip_count acc) u = Inr (n, s')"
        by (auto simp: detect_home_based_trips_def split: sum.splits)
      from commit_count_trips [OF fin] have same: "trips s' = trips u" by simp
      show ?thesis
      proof
        fix t assume "t \<in> set (trips s')"
        then have "t \<in> set (trips u)" by (simp add: same)
        from home_loop_closed_runs [OF loop this] show "t \<in> set (trips s) \<or>
          (\<exists>pre x post.
              home_query rp start_date end_date = pre @ x # post \<and>
              is_home st_distance ?profile x \<and>
              trailing_run (is_home st_distance ?profile) pre \<noteq> [] \<and>
              trip_start_time t = start_time (hd (trailing_run (is_home st_distance ?profile) pre)) \<and>
              trip_end_time t = start_time x \<and> detection_algorithm t = ''home_based'')" .
      qed
    qed
qed

lemma out_and_no_return_query:
  "home_query out_and_no_return None None =
     [visit_segment 1 0 1000 (Some ''H'') None] @
     [activity_segment 2 1000 40000 ''driving'' 90000,
      visit_segment 3 40000 90000 (Some ''A'') None,
      activity_segment 4 90000 100000 ''driving'' 50000]"
  by (simp add: home_query_def out_and_no_return_def in_range_def visit_segment_def
      activity_segment_def)

lemma there_and_back_and_out_query:
  "home_query there_and_back_and_out None None =
     home_query there_and_back None None @
     [activity_segment 6 30000 50000 ''driving'' 80000,
      visit_segment 7 50000 90000 (Some ''A'') None,
      activity_segment 8 90000 95000 ''driving'' 10000]"
  by (simp add: home_query_def there_and_back_and_out_def there_and_back_def in_range_def
      visit_segment_def activity_segment_def)

theorem home_trailing_run_creates_nothing_witness:
  "detect_home_based_trips (+) grid_distance rev out_and_no_return None None 0 0 empty_session
     = Inr (0, empty_session) \<and>
   detect_home_based_trips (+) grid_distance rev there_and_back_and_out None None 50 4 empty_session
     = Inr (1, there_and_back_store) \<and>
   detect_home_based_trips (+) grid_distance rev there_and_back None None 50 4 empty_session
     = Inr (1, there_and_back_store) \<and>
   (\<exists>pre x post.
      home_query there_and_back None None = pre @ x # post \<and>
      is_home grid_distance home_by_id x \<and>
      trailing_run (is_home grid_distance home_by_id) pre \<noteq> [] \<and>
      start_time (hd (trailing_run (is_home grid_distance home_by_id) pre)) = 2000 \<and>
      start_time x = 20000)"
proof -
  let ?h = "visit_segment 1 0 1000 (Some ''H'') None"
  let ?a1 = "activity_segment 2 1000 40000 ''driving'' 90000"
  let ?a2 = "visit_segment 3 40000 90000 (Some ''A'') None"
  let ?a3 = "activity_segment 4 90000 100000 ''driving'' 50000"
  let ?b1 = "activity_segment 6 30000 50000 ''driving'' 80000"
  let ?b2 = "visit_segment 7 50000 90000 (Some ''A'') None"
  let ?b3 = "activity_segment 8 90000 95000 ''driving'' 10000"
  let ?trip = "\<lparr>trip_id = 1, trip_start_time = 2000, trip_end_time = 20000, is_multi_day = False,
      total_distance_meters = 60000, primary_transport_mode = Some ''driving'',
      detection_algorithm = ''home_based''\<rparr>"
  have p1: "the (user_profile out_and_no_return) = home_by_id"
    and p2: "the (user_profile there_and_back_and_out) = home_by_id"
    and p3: "the (user_profile there_and_back) = home_by_id"
    by (simp_all add: out_and_no_return_def there_and_back_and_out_def there_and_back_def)
  have homes: "\<forall>g \<in> set [?h]. is_home grid_distance home_by_id g"
    by (simp add: is_home_def home_by_id_def visit_segment_def use_distance_based_def truthy_def)
  have tail: "\<forall>g \<in> set [?a1, ?a2, ?a3]. \<not> is_home grid_distance home_by_id g"
    by (simp add: is_home_def home_by_id_def visit_segment_def activity_segment_def
        use_distance_based_def truthy_def)
  have tail': "\<forall>g \<in> set [?b1, ?b2, ?b3]. \<not> is_home grid_distance home_by_id g"
    by (simp add: is_home_def home_by_id_def visit_segment_def activity_segment_def
        use_distance_based_def truthy_def)
  have clean: "new_objects empty_session = []" by (simp add: empty_session_def)
  have same: "user_profile there_and_back = user_profile there_and_back_and_out \<and>
      places there_and_back = places there_and_back_and_out"
    by (simp add: there_and_back_def there_and_back_and_out_def)
  note none = home_trailing_run_creates_nothing
    [where rp = out_and_no_return and start_date = None and end_date = None
      and homes = "[?h]" and tail = "[?a1, ?a2, ?a3]" and s = empty_session
      and float_add = "(+)" and st_distance = grid_distance and iter = rev and km = 0 and h = 0]
  note appended = home_trailing_run_creates_nothing
    [where rp = there_and_back_and_out and rp' = there_and_back and start_date = None
      and end_date = None and tail = "[?b1, ?b2, ?b3]" and s = empty_session
      and float_add = "(+)" and st_distance = grid_distance and iter = rev and km = 50 and h = 4]
  note closed = home_trailing_run_creates_nothing
    [where rp = there_and_back and start_date = None and end_date = None and s = empty_session
      and float_add = "(+)" and st_distance = grid_distance and iter = rev and km = 50 and h = 4
      and n = 1 and s' = there_and_back_store]
  from none out_and_no_return_query homes tail clean
  have r1: "detect_home_based_trips (+) grid_distance rev out_and_no_return None None 0 0 empty_session
     = Inr (0, empty_session)"
    unfolding p1 by blast
  from appended there_and_back_and_out_query tail' same
  have "detect_home_based_trips (+) grid_distance rev there_and_back_and_out None None 50 4 empty_session
     = detect_home_based_trips (+) grid_distance rev there_and_back None None 50 4 empty_session"
    unfolding p2 by simp
  then have r2: "detect_home_based_trips (+) grid_distance rev there_and_back_and_out None None 50 4
      empty_session = Inr (1, there_and_back_store)"
    by (simp add: there_and_back_run)
  have member: "?trip \<in> set (trips there_and_back_store)" and fresh: "?trip \<notin> set (trips empty_session)"
    by (simp_all add: there_and_back_store_def empty_session_def)
  from closed there_and_back_run member fresh
  have "\<exists>pre x post.
      home_query there_and_back None None = pre @ x # post \<and>
      is_home grid_distance home_by_id x \<and>
      trailing_run (is_home grid_distance home_by_id) pre \<noteq> [] \<and>
      trip_start_time ?trip = start_time (hd (trailing_run (is_home grid_distance home_by_id) pre)) \<and>
      trip_end_time ?trip = start_time x \<and> detection_algorithm ?trip = ''home_based''"
    unfolding p3 by blast
  then have r3: "\<exists>pre x post.
      home_query there_and_back None None = pre @ x # post \<and>
      is_home grid_distance home_by_id x \<and>
      trailing_run (is_home grid_distance home_by_id) pre \<noteq> [] \<and>
      start_time (hd (trailing_run (is_home grid_distance home_by_id) pre)) = 2000 \<and>
      start_time x = 20000"
    by simp
  from r1 r2 there_and_back_run r3 show ?thesis by blast
qed

section \<open>Running a detector twice\<close>

lemma for_each_keys_mono:
  assumes "for_each body xs (a, s) = Inr (a', s')"
    and mono: "\<And>x a s a' s'. body x (a, s) = Inr (a', s') \<Longrightarrow>
                 trip_key ` set (trips s) \<subseteq> trip_key ` set (trips s')"
  shows "trip_key ` set (trips s) \<subseteq> trip_key ` set (trips s')"
  using assms(1)
proof (induction xs arbitrary: a s)
  case Nil
  then show ?case by simp
next
  case (Cons x xs)
  from Cons.prems obtain a1 s1 where st1: "body x (a, s) = Inr (a1, s1)"
    and rest: "for_each body xs (a1, s1) = Inr (a', s')"
    by (auto split: sum.splits)
  from mono [OF st1] Cons.IH [OF rest] show ?case by (rule subset_trans)
qed

lemma for_each_replay:
  assumes "for_each body xs (a, s) = Inr (a', s')"
    and "trip_key ` set (trips s') \<subseteq> trip_key ` set (trips t)"
    and mono: "\<And>x a s a' s'. body x (a, s) = Inr (a', s') \<Longrightarrow>
                 trip_key ` set (trips s) \<subseteq> trip_key ` set (trips s')"
    and step: "\<And>x a s a' s'. body x (a, s) = Inr (a', s') \<Longrightarrow>
                 trip_key ` set (trips s') \<subseteq> trip_key ` set (trips t) \<Longrightarrow>
                 body x (a, t) = Inr (a', t)"
  shows "for_each body xs (a, t) = Inr (a', t)"
  using assms(1,2)
proof (induction xs arbitrary: a s)
  case Nil
  then show ?case by simp
next
  case (Cons x xs)
  from Cons.prems(1) obtain a1 s1 where st1: "body x (a, s) = Inr (a1, s1)"
    and rest: "for_each body xs (a1, s1) = Inr (a', s')"
    by (auto split: sum.splits)
  have m: "trip_key ` set (trips s1) \<subseteq> trip_key ` set (trips s')"
    by (rule for_each_keys_mono [OF rest mono])
  from m Cons.prems(2)
  have sub: "trip_key ` set (trips s1) \<subseteq> trip_key ` set (trips t)" by (rule subset_trans)
  have one: "body x (a, t) = Inr (a1, t)" by (rule step [OF st1 sub])
  have more: "for_each body xs (a1, t) = Inr (a', t)" by (rule Cons.IH [OF rest Cons.prems(2)])
  show ?case by (simp add: one more)
qed

lemma created_mono: "created s s' k \<Longrightarrow> trip_key ` set (trips s) \<subseteq> trip_key ` set (trips s')"
  by (drule created_keys) blast

lemma created_member: "created s s' k \<Longrightarrow> k \<in> trip_key ` set (trips s')"
  by (drule created_keys) blast

lemma home_body_mono:
  "home_body float_add st_distance iter pl profile km h x (acc, s) = Inr (acc', s') \<Longrightarrow>
   trip_key ` set (trips s) \<subseteq> trip_key ` set (trips s')"
  by (drule home_body_effect) (auto dest: created_mono)

lemma create_trip_replay:
  assumes "create_trip float_add pl st en segs d ds alg s = Inr s'"
    and "trip_key ` set (trips s') \<subseteq> trip_key ` set (trips t)"
  shows "create_trip float_add pl st en segs d ds alg t = Inr t"
proof -
  from create_trip_created [OF assms(1)] have "(st, en, alg) \<in> trip_key ` set (trips s')"
    by (rule created_member)
  with assms(2) have "(st, en, alg) \<in> trip_key ` set (trips t)" by blast
  then show ?thesis by (rule create_trip_skip)
qed

lemma home_body_replay:
  assumes "home_body float_add st_distance iter pl profile km h x (acc, s) = Inr (acc', s')"
    and sub: "trip_key ` set (trips s') \<subseteq> trip_key ` set (trips t)"
  shows "home_body float_add st_distance iter pl profile km h x (acc, t) = Inr (acc', t)"
proof (cases "is_home st_distance profile x")
  case False
  with assms(1) show ?thesis by (simp add: home_body_def)
next
  case True
  show ?thesis
  proof (cases "current_trip_segments acc")
    case Nil
    with True assms(1) show ?thesis by (simp add: home_body_def)
  next
    case (Cons first others)
    show ?thesis
    proof (cases "current_trip_distance acc / 1000 \<ge> km \<and>
        real_of_int (start_time x - start_time first) / 3600 \<ge> h")
      case False
      with True Cons assms(1) show ?thesis by (auto simp: home_body_def Let_def)
    next
      case accept: True
      with True Cons assms(1) have
        made: "create_trip float_add pl (start_time first) (start_time x) (current_trip_segments acc)
                 (current_trip_distance acc) (iter (current_trip_destinations acc)) ''home_based'' s
               = Inr s'"
        and acc': "acc' = home_reset (acc\<lparr>home_trip_count := home_trip_count acc + 1\<rparr>)"
        by (auto simp: home_body_def Let_def split: sum.splits)
      from create_trip_replay [OF made sub] True Cons accept acc' show ?thesis
        by (auto simp: home_body_def Let_def)
    qed
  qed
qed

lemma create_overnight_trip_replay:
  assumes "create_overnight_trip float_add pl vs s = Inr s'"
    and "trip_key ` set (trips s') \<subseteq> trip_key ` set (trips t)"
  shows "create_overnight_trip float_add pl vs t = Inr t"
proof (cases vs)
  case Nil
  then show ?thesis by (simp add: create_overnight_trip_def)
next
  case (Cons v rest)
  with assms(1) have "create_trip float_add pl (start_time (snd v)) (end_time (snd (last vs))) (map snd vs) 0
      (map (\<lambda>vg. the (place_id (fst vg))) (filter (\<lambda>vg. truthy (place_id (fst vg))) vs))
      ''overnight'' s = Inr s'"
    by (simp add: create_overnight_trip_def)
  from create_trip_replay [OF this assms(2)] Cons show ?thesis
    by (simp add: create_overnight_trip_def)
qed

lemma overnight_body_mono:
  "overnight_body float_add pl mn x ((cur, n), s) = Inr ((cur', n'), s') \<Longrightarrow>
   trip_key ` set (trips s) \<subseteq> trip_key ` set (trips s')"
  by (drule overnight_body_effect) (auto dest: created_mono)

lemma overnight_body_replay:
  assumes "overnight_body float_add pl mn x (a, s) = Inr (a', s')"
    and sub: "trip_key ` set (trips s') \<subseteq> trip_key ` set (trips t)"
  shows "overnight_body float_add pl mn x (a, t) = Inr (a', t)"
proof -
  obtain cur n where a: "a = (cur, n)" by (cases a)
  show ?thesis
  proof (cases "cur \<noteq> [] \<and> start_time (snd x) - end_time (snd (last cur)) > 48 * 3600 \<and>
      int (length cur) \<ge> mn")
    case False
    with assms(1) show ?thesis
      unfolding a by (auto simp: overnight_body_def Let_def split: if_splits)
  next
    case True
    with assms(1) have made: "create_overnight_trip float_add pl cur s = Inr s'" and a': "a' = ([x], n + 1)"
      unfolding a by (auto simp: overnight_body_def Let_def split: sum.splits)
    from create_overnight_trip_replay [OF made sub] True a' show ?thesis
      unfolding a by (simp add: overnight_body_def Let_def)
  qed
qed

lemma create_clustered_trip_call:
  assumes "segs \<noteq> []"
  shows "\<exists>d ds. \<forall>s. create_clustered_trip float_add iter pl segs s =
     create_trip float_add pl (start_time (hd segs)) (end_time (last segs)) segs d ds ''distance_based'' s"
proof -
  from assms obtain g rest where segs: "segs = g # rest" by (cases segs) auto
  show ?thesis
    unfolding segs by (intro exI allI) (simp add: create_clustered_trip_def)
qed

lemma create_clustered_trip_replay:
  assumes "create_clustered_trip float_add iter pl segs s = Inr s'"
    and "trip_key ` set (trips s') \<subseteq> trip_key ` set (trips t)"
  shows "create_clustered_trip float_add iter pl segs t = Inr t"
proof (cases "segs = []")
  case True
  then show ?thesis by (simp add: create_clustered_trip_def)
next
  case False
  from create_clustered_trip_call [OF False, of float_add iter pl] obtain d ds where
    call: "\<And>s. create_clustered_trip float_add iter pl segs s =
      create_trip float_add pl (start_time (hd segs)) (end_time (last segs)) segs d ds ''distance_based'' s"
    by blast
  from assms(1) have
    "create_trip float_add pl (start_time (hd segs)) (end_time (last segs)) segs d ds ''distance_based'' s = Inr s'"
    by (simp add: call)
  from create_trip_replay [OF this assms(2)] show ?thesis by (simp add: call)
qed

lemma distance_body_mono:
  "distance_body float_add iter pl gap x ((cur, n), s) = Inr ((cur', n'), s') \<Longrightarrow>
   trip_key ` set (trips s) \<subseteq> trip_key ` set (trips s')"
  by (drule distance_body_effect) (auto dest: created_mono)

lemma distance_body_replay:
  assumes "distance_body float_add iter pl gap x (a, s) = Inr (a', s')"
    and sub: "trip_key ` set (trips s') \<subseteq> trip_key ` set (trips t)"
  shows "distance_body float_add iter pl gap x (a, t) = Inr (a', t)"
proof -
  obtain cur n where a: "a = (cur, n)" by (cases a)
  show ?thesis
  proof (cases "cur \<noteq> [] \<and>
      \<not> real_of_int (start_time x - end_time (last cur)) / 3600 \<le> gap \<and> length cur \<ge> 2")
    case False
    with assms(1) show ?thesis
      unfolding a by (auto simp: distance_body_def Let_def split: if_splits)
  next
    case True
    with assms(1) have made: "create_clustered_trip float_add iter pl cur s = Inr s'" and a': "a' = ([x], n + 1)"
      unfolding a by (auto simp: distance_body_def Let_def split: sum.splits)
    from create_clustered_trip_replay [OF made sub] True a' show ?thesis
      unfolding a by (simp add: distance_body_def Let_def)
  qed
qed

lemma memory_body_mono:
  "memory_body pl x (n, s) = Inr (n', s') \<Longrightarrow>
   trip_key ` set (trips s) \<subseteq> trip_key ` set (trips s')"
  by (cases x) (auto dest!: memory_body_created created_mono)

lemma memory_loop_replay:
  assumes "for_each (memory_body pl) xs (n, s) = Inr (n', s')"
    and "trip_key ` set (trips s') \<subseteq> trip_key ` set (trips t)"
  shows "for_each (memory_body pl) xs (k, t) = Inr (k, t)"
  using assms
proof (induction xs arbitrary: n s)
  case Nil
  then show ?case by simp
next
  case (Cons x xs)
  obtain m g where x: "x = (m, g)" by (cases x)
  from Cons.prems(1) obtain n1 s1 where st1: "memory_body pl (m, g) (n, s) = Inr (n1, s1)"
    and rest: "for_each (memory_body pl) xs (n1, s1) = Inr (n', s')"
    unfolding x by (auto split: sum.splits)
  have "(start_time g, end_time g, ''timeline_memory'') \<in> trip_key ` set (trips s1)"
    by (rule created_member [OF memory_body_created [OF st1]])
  moreover have "trip_key ` set (trips s1) \<subseteq> trip_key ` set (trips s')"
    by (rule for_each_keys_mono [OF rest memory_body_mono])
  ultimately have "(start_time g, end_time g, ''timeline_memory'') \<in> trip_key ` set (trips t)"
    using Cons.prems(2) by (meson subsetD)
  then have one: "memory_body pl (m, g) (k, t) = Inr (k, t)" by (rule memory_body_skip)
  have more: "for_each (memory_body pl) xs (k, t) = Inr (k, t)"
    by (rule Cons.IH [OF rest Cons.prems(2)])
  show ?case unfolding x by (simp add: one more)
qed

lemma commit_count_result:
  assumes "commit_count pl n s = Inr (n', s')"
  shows "n' = n \<and> trips s' = trips s \<and> new_objects s' = [] \<and> commit_count pl k s' = Inr (k, s')"
proof -
  from assms have c: "commit pl s = Inr s'" and n: "n' = n"
    by (auto simp: commit_count_def split: sum.splits)
  from commit_new_objects [OF c] have clean: "new_objects s' = []" .
  from commit_clean [OF clean] have "commit_count pl k s' = Inr (k, s')"
    by (simp add: commit_count_def)
  with n commit_trips [OF c] clean show ?thesis by simp
qed

lemma memory_second_run:
  assumes "detect_timeline_memory_trips rp sd ed s = Inr (n, s')"
  shows "detect_timeline_memory_trips rp sd ed s' = Inr (0, s')"
proof -
  from assms obtain k t where
    loop: "for_each (memory_body (places rp)) (memory_query rp sd ed) (0, s) = Inr (k, t)"
    and fin: "commit_count (places rp) k t = Inr (n, s')"
    by (auto simp: detect_timeline_memory_trips_def split: sum.splits)
  from commit_count_result [OF fin, of 0]
  have same: "trips s' = trips t" and again: "commit_count (places rp) 0 s' = Inr (0, s')" by simp_all
  from same have "trip_key ` set (trips t) \<subseteq> trip_key ` set (trips s')" by simp
  from memory_loop_replay [OF loop this, of 0] again show ?thesis
    by (simp add: detect_timeline_memory_trips_def)
qed

lemma home_second_run:
  assumes "detect_home_based_trips float_add st_distance iter rp sd ed km h s = Inr (n, s')"
  shows "detect_home_based_trips float_add st_distance iter rp sd ed km h s' = Inr (n, s')"
proof (cases "no_home (user_profile rp)")
  case True
  with assms show ?thesis by (simp add: detect_home_based_trips_def)
next
  case False
  let ?body = "home_body float_add st_distance iter (places rp) (the (user_profile rp)) km h"
  from False assms(1) obtain acc t where
    loop: "for_each ?body (home_query rp sd ed) (home_init, s) = Inr (acc, t)"
    and fin: "commit_count (places rp) (home_trip_count acc) t = Inr (n, s')"
    by (auto simp: detect_home_based_trips_def split: sum.splits)
  from commit_count_result [OF fin, of "home_trip_count acc"]
  have n: "n = home_trip_count acc" and same: "trips s' = trips t"
    and again: "commit_count (places rp) (home_trip_count acc) s' = Inr (home_trip_count acc, s')"
    by simp_all
  from same have sub: "trip_key ` set (trips t) \<subseteq> trip_key ` set (trips s')" by simp
  have "for_each ?body (home_query rp sd ed) (home_init, s') = Inr (acc, s')"
    by (rule for_each_replay [OF loop sub home_body_mono home_body_replay])
  with False again n show ?thesis by (simp add: detect_home_based_trips_def)
qed

lemma create_overnight_trip_mono:
  "create_overnight_trip float_add pl vs s = Inr s' \<Longrightarrow>
   trip_key ` set (trips s) \<subseteq> trip_key ` set (trips s')"
  by (drule create_overnight_trip_effect) (auto dest: created_mono)

lemma create_clustered_trip_mono:
  "create_clustered_trip float_add iter pl segs s = Inr s' \<Longrightarrow>
   trip_key ` set (trips s) \<subseteq> trip_key ` set (trips s')"
  by (drule create_clustered_trip_effect) (auto dest: created_mono)

lemma overnight_body_mono':
  "overnight_body float_add pl mn x (a, s) = Inr (a', s') \<Longrightarrow>
   trip_key ` set (trips s) \<subseteq> trip_key ` set (trips s')"
  by (cases a, cases a') (auto dest: overnight_body_mono)

lemma distance_body_mono':
  "distance_body float_add iter pl gap x (a, s) = Inr (a', s') \<Longrightarrow>
   trip_key ` set (trips s) \<subseteq> trip_key ` set (trips s')"
  by (cases a, cases a') (auto dest: distance_body_mono)

lemma overnight_second_run:
  assumes "detect_overnight_trips float_add st_distance rp sd ed mn s = Inr (n, s')"
  shows "detect_overnight_trips float_add st_distance rp sd ed mn s' = Inr (n, s')"
proof (cases "no_home (user_profile rp)")
  case True
  with assms show ?thesis by (simp add: detect_overnight_trips_def)
next
  case False
  let ?body = "overnight_body float_add (places rp) mn"
  let ?xs = "overnight_visits st_distance rp (the (user_profile rp)) sd ed"
  from False assms obtain cur k t where
    loop: "for_each ?body ?xs (([], 0), s) = Inr ((cur, k), t)"
    and fin: "(if int (length cur) \<ge> mn then
                (case create_overnight_trip float_add (places rp) cur t of
                   Inl e \<Rightarrow> Inl e
                 | Inr t' \<Rightarrow> commit_count (places rp) (k + 1) t')
              else commit_count (places rp) k t) = Inr (n, s')"
    by (auto simp: detect_overnight_trips_def split: sum.splits)
  show ?thesis
  proof (cases "int (length cur) \<ge> mn")
    case True
    with fin obtain t' where made: "create_overnight_trip float_add (places rp) cur t = Inr t'"
      and fin': "commit_count (places rp) (k + 1) t' = Inr (n, s')"
      by (auto split: sum.splits)
    from commit_count_result [OF fin', of "k + 1"]
    have n: "n = k + 1" and same: "trips s' = trips t'"
      and again: "commit_count (places rp) (k + 1) s' = Inr (k + 1, s')" by simp_all
    from same have sub': "trip_key ` set (trips t') \<subseteq> trip_key ` set (trips s')" by simp
    from create_overnight_trip_mono [OF made] sub'
    have sub: "trip_key ` set (trips t) \<subseteq> trip_key ` set (trips s')" by (rule subset_trans)
    have l: "for_each ?body ?xs (([], 0), s') = Inr ((cur, k), s')"
      by (rule for_each_replay [OF loop sub overnight_body_mono' overnight_body_replay])
    have c: "create_overnight_trip float_add (places rp) cur s' = Inr s'"
      by (rule create_overnight_trip_replay [OF made sub'])
    from False True l c again n show ?thesis by (simp add: detect_overnight_trips_def)
  next
    case no: False
    with fin have fin': "commit_count (places rp) k t = Inr (n, s')" by simp
    from commit_count_result [OF fin', of k]
    have n: "n = k" and same: "trips s' = trips t"
      and again: "commit_count (places rp) k s' = Inr (k, s')" by simp_all
    from same have sub: "trip_key ` set (trips t) \<subseteq> trip_key ` set (trips s')" by simp
    have l: "for_each ?body ?xs (([], 0), s') = Inr ((cur, k), s')"
      by (rule for_each_replay [OF loop sub overnight_body_mono' overnight_body_replay])
    from False no l again n show ?thesis by (simp add: detect_overnight_trips_def)
  qed
qed

lemma distance_second_run:
  assumes "detect_distance_based_trips float_add st_distance iter rp sd ed km gap s = Inr (n, s')"
  shows "detect_distance_based_trips float_add st_distance iter rp sd ed km gap s' = Inr (n, s')"
proof (cases "user_profile rp")
  case None
  with assms show ?thesis by (simp add: detect_distance_based_trips_def)
next
  case (Some profile)
  note profile = this
  show ?thesis
  proof (cases "home_location profile")
    case None
    with assms profile show ?thesis by (simp add: detect_distance_based_trips_def)
  next
    case (Some home)
    let ?body = "distance_body float_add iter (places rp) gap"
    let ?xs = "filter (is_far st_distance home km) (distance_query rp sd ed)"
    from Some profile assms obtain cur k t where
      loop: "for_each ?body ?xs (([], 0), s) = Inr ((cur, k), t)"
      and fin: "(if length cur \<ge> 2 then
                  (case create_clustered_trip float_add iter (places rp) cur t of
                     Inl e \<Rightarrow> Inl e
                   | Inr t' \<Rightarrow> commit_count (places rp) (k + 1) t')
                else commit_count (places rp) k t) = Inr (n, s')"
      by (auto simp: detect_distance_based_trips_def split: sum.splits)
    show ?thesis
    proof (cases "length cur \<ge> 2")
      case True
      with fin obtain t' where made: "create_clustered_trip float_add iter (places rp) cur t = Inr t'"
        and fin': "commit_count (places rp) (k + 1) t' = Inr (n, s')"
        by (auto split: sum.splits)
      from commit_count_result [OF fin', of "k + 1"]
      have n: "n = k + 1" and same: "trips s' = trips t'"
        and again: "commit_count (places rp) (k + 1) s' = Inr (k + 1, s')" by simp_all
      from same have sub': "trip_key ` set (trips t') \<subseteq> trip_key ` set (trips s')" by simp
      from create_clustered_trip_mono [OF made] sub'
      have sub: "trip_key ` set (trips t) \<subseteq> trip_key ` set (trips s')" by (rule subset_trans)
      have l: "for_each ?body ?xs (([], 0), s') = Inr ((cur, k), s')"
        by (rule for_each_replay [OF loop sub distance_body_mono' distance_body_replay])
      have c: "create_clustered_trip float_add iter (places rp) cur s' = Inr s'"
        by (rule create_clustered_trip_replay [OF made sub'])
      from Some profile True l c again n show ?thesis
        by (simp add: detect_distance_based_trips_def)
    next
      case no: False
      with fin have fin': "commit_count (places rp) k t = Inr (n, s')" by simp
      from commit_count_result [OF fin', of k]
      have n: "n = k" and same: "trips s' = trips t"
        and again: "commit_count (places rp) k s' = Inr (k, s')" by simp_all
      from same have sub: "trip_key ` set (trips t) \<subseteq> trip_key ` set (trips s')" by simp
      have l: "for_each ?body ?xs (([], 0), s') = Inr ((cur, k), s')"
        by (rule for_each_replay [OF loop sub distance_body_mono' distance_body_replay])
      from Some profile no l again n show ?thesis
        by (simp add: detect_distance_based_trips_def)
    qed
  qed
qed

lemma two_nights_two_places_run:
  "detect_overnight_trips (+) grid_distance two_nights_two_places None None 1 empty_session
     = Inr (1, two_nights_store)"
  by (simp add: detect_overnight_trips_def no_home_def two_nights_two_places_def home_by_id_def
      truthy_def overnight_visits_def overnight_query_def visit_rows_def List.map_filter_simps
      use_distance_based_def sql_ne_def hour_of_def in_range_def visit_segment_def
      overnight_body_def create_overnight_trip_def create_trip_def find_existing_def
      empty_session_def add_trip_and_flush_def flush_def add_all_def destination_rows_def
      segment_rows_def date_of_def commit_count_def commit_def primary_mode_of_def
      two_nights_store_def)

lemma far_away_run:
  "detect_distance_based_trips (+) grid_distance rev far_away None None 100 6 empty_session
     = Inr (1, far_away_store)"
  by (simp add: detect_distance_based_trips_def far_away_def home_by_point_def distance_query_def
      in_range_def visit_segment_def is_far_def representative_point_def grid_distance_def
      distance_body_def create_clustered_trip_def create_trip_def find_existing_def
      empty_session_def add_trip_and_flush_def flush_def add_all_def destination_rows_def
      segment_rows_def date_of_def commit_count_def commit_def primary_mode_of_def
      set_of_list_def set_add_def truthy_def or0_def far_away_store_def)

text \<open>
  C2 (amended). When a detector run succeeds, running the same detector again with the same
  arguments on the same repository succeeds and leaves the store exactly as the first run
  left it (no write, hence no duplicate trip). The home-based, overnight and distance-based
  detectors return the same count again; the memory detector counts the trips it newly
  created, so its second run returns 0.
\<close>

theorem second_run_writes_nothing:
  "(detect_timeline_memory_trips rp sd ed s = Inr (n, s') \<longrightarrow>
      detect_timeline_memory_trips rp sd ed s' = Inr (0, s')) \<and>
   (detect_home_based_trips float_add st_distance iter rp sd ed km h s = Inr (n, s') \<longrightarrow>
      detect_home_based_trips float_add st_distance iter rp sd ed km h s' = Inr (n, s')) \<and>
   (detect_overnight_trips float_add st_distance rp sd ed mn s = Inr (n, s') \<longrightarrow>
      detect_overnight_trips float_add st_distance rp sd ed mn s' = Inr (n, s')) \<and>
   (detect_distance_based_trips float_add st_distance iter rp sd ed km gap s = Inr (n, s') \<longrightarrow>
      detect_distance_based_trips float_add st_distance iter rp sd ed km gap s' = Inr (n, s'))"
  by (intro conjI impI)
    (erule memory_second_run, erule home_second_run, erule overnight_second_run,
     erule distance_second_run)

text \<open>
  C2 as stated fails. One provider memory: the first run of the memory detector returns 1, the second returns 0.
\<close>

theorem second_run_same_count_counterexample:
  "detect_timeline_memory_trips one_memory None None empty_session = Inr (1, one_memory_store) \<and>
   detect_timeline_memory_trips one_memory None None one_memory_store = Inr (0, one_memory_store)"
  by (simp add: one_memory_first_run one_memory_second_run)

theorem second_run_writes_nothing_witness:
  "detect_timeline_memory_trips one_memory None None empty_session = Inr (1, one_memory_store) \<and>
   detect_timeline_memory_trips one_memory None None one_memory_store = Inr (0, one_memory_store) \<and>
   detect_home_based_trips (+) grid_distance rev there_and_back None None 50 4 empty_session
     = Inr (1, there_and_back_store) \<and>
   detect_home_based_trips (+) grid_distance rev there_and_back None None 50 4 there_and_back_store
     = Inr (1, there_and_back_store) \<and>
   detect_overnight_trips (+) grid_distance two_nights_two_places None None 1 empty_session
     = Inr (1, two_nights_store) \<and>
   detect_overnight_trips (+) grid_distance two_nights_two_places None None 1 two_nights_store
     = Inr (1, two_nights_store) \<and>
   detect_distance_based_trips (+) grid_distance rev far_away None None 100 6 empty_session
     = Inr (1, far_away_store) \<and>
   detect_distance_based_trips (+) grid_distance rev far_away None None 100 6 far_away_store
     = Inr (1, far_away_store)"
proof -
  note m = second_run_writes_nothing
    [where rp = one_memory and sd = None and ed = None and s = empty_session and n = 1
      and s' = one_memory_store]
  note h = second_run_writes_nothing
    [where float_add = "(+)" and st_distance = grid_distance and iter = rev and rp = there_and_back
      and sd = None and ed = None and km = 50 and h = 4 and s = empty_session and n = 1
      and s' = there_and_back_store]
  note o = second_run_writes_nothing
    [where float_add = "(+)" and st_distance = grid_distance and rp = two_nights_two_places
      and sd = None and ed = None and mn = 1 and s = empty_session and n = 1 and s' = two_nights_store]
  note d = second_run_writes_nothing
    [where float_add = "(+)" and st_distance = grid_distance and iter = rev and rp = far_away
      and sd = None and ed = None and km = 100 and gap = 6 and s = empty_session and n = 1
      and s' = far_away_store]
  from m one_memory_first_run
  have m2: "detect_timeline_memory_trips one_memory None None one_memory_store = Inr (0, one_memory_store)"
    by blast
  from h there_and_back_run
  have h2: "detect_home_based_trips (+) grid_distance rev there_and_back None None 50 4 there_and_back_store
     = Inr (1, there_and_back_store)" by blast
  from o two_nights_two_places_run
  have o2: "detect_overnight_trips (+) grid_distance two_nights_two_places None None 1 two_nights_store
     = Inr (1, two_nights_store)" by blast
  from d far_away_run
  have d2: "detect_distance_based_trips (+) grid_distance rev far_away None None 100 6 far_away_store
     = Inr (1, far_away_store)" by blast
  from one_memory_first_run m2 there_and_back_run h2 two_nights_two_places_run o2 far_away_run d2
  show ?thesis by blast
qed

section \<open>Trip bounds\<close>

lemma added_within_refl: "added_within R s s"
  by (simp add: added_within_def list_all_iff)

lemma created_added:
  "created s s' (st, en, alg) \<Longrightarrow> R st en \<Longrightarrow> added_within R s0 s \<Longrightarrow> added_within R s0 s'"
  by (auto simp: added_within_def list_all_iff dest!: created_new)

lemma commit_count_added:
  "commit_count pl n s = Inr (n', s') \<Longrightarrow> added_within R s0 s \<Longrightarrow> added_within R s0 s'"
  by (auto simp: added_within_def dest!: commit_count_trips)

lemma added_within_strict: "added_within (<) s s' \<Longrightarrow> end_after_start (created_trips s s')"
  by (auto simp: added_within_def end_after_start_def created_trips_def list_all_iff)

lemma added_within_ordered: "added_within (\<le>) s s' \<Longrightarrow> end_not_before_start (created_trips s s')"
  by (auto simp: added_within_def end_not_before_start_def created_trips_def list_all_iff)

lemma sorted_hd_last:
  "sorted (map f xs) \<Longrightarrow> xs \<noteq> [] \<Longrightarrow> f (hd xs) \<le> f (last xs)"
  by (cases xs) (auto simp: last_in_set)

lemma sorted_map_suffix: "sorted (map f (xs @ ys)) \<Longrightarrow> sorted (map f ys)"
  by (simp add: sorted_append)

lemma sorted_map_filter: "sorted (map f xs) \<Longrightarrow> sorted (map f (filter P xs))"
  by (induction xs) auto

lemma sorted_group_bounds:
  fixes f g :: "'a \<Rightarrow> int"
  assumes "sorted (map f xs)" and "xs \<noteq> []" and "\<forall>x \<in> set xs. R (f x) (g x)"
    and "\<And>a b c. a \<le> b \<Longrightarrow> R b c \<Longrightarrow> R a c"
  shows "R (f (hd xs)) (g (last xs))"
proof -
  from sorted_hd_last [OF assms(1,2)] have "f (hd xs) \<le> f (last xs)" .
  moreover from assms(2,3) have "R (f (last xs)) (g (last xs))" by simp
  ultimately show ?thesis by (rule assms(4))
qed

lemma memory_query_segment: "(m, g) \<in> set (memory_query rp sd ed) \<Longrightarrow> g \<in> set (timeline_segments rp)"
  by (auto simp: memory_query_def List.map_filter_def)

lemma memory_loop_added:
  assumes "for_each (memory_body pl) xs (n, s) = Inr (n', s')"
    and "added_within R s0 s" and "\<forall>mg \<in> set xs. R (start_time (snd mg)) (end_time (snd mg))"
  shows "added_within R s0 s'"
proof -
  let ?I = "\<lambda>(xs :: (TimelineMemoryModel \<times> TimelineSegment) list) (st :: nat \<times> session).
      added_within R s0 (snd st) \<and> (\<forall>mg \<in> set xs. R (start_time (snd mg)) (end_time (snd mg)))"
  have "?I [] (n', s')"
  proof (rule for_each_rule [OF assms(1), where I = ?I])
    show "?I xs (n, s)" using assms(2,3) by simp
  next
    fix x rest st st'
    assume inv: "?I (x # rest) st" and step: "memory_body pl x st = Inr st'"
    obtain m g where x: "x = (m, g)" by (cases x)
    obtain k t where st: "st = (k, t)" by (cases st)
    obtain k' t' where st': "st' = (k', t')" by (cases st')
    from step have c: "created t t' (start_time g, end_time g, ''timeline_memory'')"
      unfolding x st st' by (rule memory_body_created)
    from inv have "R (start_time g) (end_time g)" and "added_within R s0 t" by (simp_all add: x st)
    from created_added [OF c this] inv show "?I rest st'" by (simp add: st')
  qed
  then show ?thesis by simp
qed

lemma home_loop_ordered:
  assumes "for_each (home_body float_add st_distance iter pl profile km h) xs (acc, s) = Inr (acc', s')"
    and "added_within (\<le>) s0 s" and "sorted (map start_time (current_trip_segments acc @ xs))"
  shows "added_within (\<le>) s0 s'"
proof -
  let ?I = "\<lambda>(xs :: TimelineSegment list) (st :: home_acc \<times> session).
      added_within (\<le>) s0 (snd st) \<and> sorted (map start_time (current_trip_segments (fst st) @ xs))"
  have "?I [] (acc', s')"
  proof (rule for_each_rule [OF assms(1), where I = ?I])
    show "?I xs (acc, s)" using assms(2,3) by simp
  next
    fix x rest st st'
    assume inv: "?I (x # rest) st"
      and step: "home_body float_add st_distance iter pl profile km h x st = Inr st'"
    obtain a t where st: "st = (a, t)" by (cases st)
    obtain a' t' where st': "st' = (a', t')" by (cases st')
    from inv have ord: "added_within (\<le>) s0 t"
      and srt: "sorted (map start_time (current_trip_segments a @ x # rest))" by (simp_all add: st)
    note step' = step [unfolded st st']
    have "added_within (\<le>) s0 t'"
    proof -
      from home_body_effect [OF step'] consider "t' = t"
        | "current_trip_segments a \<noteq> []"
          "created t t' (start_time (hd (current_trip_segments a)), start_time x, ''home_based'')"
        by blast
      then show ?thesis
      proof cases
        case 1
        with ord show ?thesis by simp
      next
        case 2
        from 2(1) have "hd (current_trip_segments a) \<in> set (current_trip_segments a)" by simp
        with srt have "start_time (hd (current_trip_segments a)) \<le> start_time x"
          by (auto simp: sorted_append)
        from created_added [OF 2(2) this ord] show ?thesis .
      qed
    qed
    moreover have "sorted (map start_time (current_trip_segments a' @ rest))"
      using srt home_body_segments [OF step'] by (auto simp: sorted_append)
    ultimately show "?I rest st'" by (simp add: st')
  qed
  then show ?thesis by simp
qed

lemma home_body_accepted:
  assumes "home_body float_add st_distance iter pl profile km h x (acc, s) = Inr (acc', s')"
  shows "s' = s \<or>
     (current_trip_segments acc \<noteq> [] \<and>
      h \<le> real_of_int (start_time x - start_time (hd (current_trip_segments acc))) / 3600 \<and>
      created s s' (start_time (hd (current_trip_segments acc)), start_time x, ''home_based''))"
  using assms
  by (auto simp: home_body_def Let_def split: if_splits list.splits sum.splits
      dest!: create_trip_created)

lemma home_loop_strict:
  assumes "for_each (home_body float_add st_distance iter pl profile km h) xs (acc, s) = Inr (acc', s')"
    and "added_within (<) s0 s" and "0 < h"
  shows "added_within (<) s0 s'"
proof -
  let ?I = "\<lambda>(xs :: TimelineSegment list) (st :: home_acc \<times> session). added_within (<) s0 (snd st)"
  have "?I [] (acc', s')"
  proof (rule for_each_rule [OF assms(1), where I = ?I])
    show "?I xs (acc, s)" using assms(2) by simp
  next
    fix x rest st st'
    assume inv: "?I (x # rest) st"
      and step: "home_body float_add st_distance iter pl profile km h x st = Inr st'"
    obtain a t where st: "st = (a, t)" by (cases st)
    obtain a' t' where st': "st' = (a', t')" by (cases st')
    from inv have ord: "added_within (<) s0 t" by (simp add: st)
    from home_body_accepted [OF step [unfolded st st']] consider "t' = t"
      | "h \<le> real_of_int (start_time x - start_time (hd (current_trip_segments a))) / 3600"
        "created t t' (start_time (hd (current_trip_segments a)), start_time x, ''home_based'')"
      by blast
    then show "?I rest st'"
    proof cases
      case 1
      with ord show ?thesis by (simp add: st')
    next
      case 2
      from 2(1) assms(3)
      have "0 < real_of_int (start_time x - start_time (hd (current_trip_segments a))) / 3600"
        by simp
      then have "start_time (hd (current_trip_segments a)) < start_time x" by simp
      from created_added [OF 2(2) this ord] show ?thesis by (simp add: st')
    qed
  qed
  then show ?thesis by simp
qed

lemma overnight_body_group:
  assumes "overnight_body float_add pl mn x ((cur, n), s) = Inr ((cur', n'), s')"
  shows "cur' = cur @ [x] \<or> cur' = [x]"
  using assms by (auto simp: overnight_body_def Let_def split: if_splits sum.splits)

lemma distance_body_group:
  assumes "distance_body float_add iter pl gap x ((cur, n), s) = Inr ((cur', n'), s')"
  shows "cur' = cur @ [x] \<or> cur' = [x]"
  using assms by (auto simp: distance_body_def Let_def split: if_splits sum.splits)

lemma overnight_loop_strict:
  assumes "for_each (overnight_body float_add pl mn) xs ((cur, n), s) = Inr ((cur', n'), s')"
    and "added_within (<) s0 s"
    and "sorted (map (\<lambda>vg. start_time (snd vg)) (cur @ xs))"
    and "\<forall>vg \<in> set (cur @ xs). start_time (snd vg) < end_time (snd vg)"
  shows "added_within (<) s0 s' \<and> sorted (map (\<lambda>vg. start_time (snd vg)) cur') \<and>
     (\<forall>vg \<in> set cur'. start_time (snd vg) < end_time (snd vg))"
proof -
  let ?f = "\<lambda>vg :: VisitModel \<times> TimelineSegment. start_time (snd vg)"
  let ?g = "\<lambda>vg :: VisitModel \<times> TimelineSegment. end_time (snd vg)"
  let ?I = "\<lambda>(xs :: (VisitModel \<times> TimelineSegment) list)
      (st :: ((VisitModel \<times> TimelineSegment) list \<times> nat) \<times> session).
      added_within (<) s0 (snd st) \<and> sorted (map ?f (fst (fst st) @ xs)) \<and>
      (\<forall>vg \<in> set (fst (fst st) @ xs). ?f vg < ?g vg)"
  have "?I [] ((cur', n'), s')"
  proof (rule for_each_rule [OF assms(1), where I = ?I])
    show "?I xs ((cur, n), s)" using assms(2-4) by simp
  next
    fix x rest st st'
    assume inv: "?I (x # rest) st" and step: "overnight_body float_add pl mn x st = Inr st'"
    obtain c k t where st: "st = ((c, k), t)" by (cases st) auto
    obtain c' k' t' where st': "st' = ((c', k'), t')" by (cases st') auto
    from inv have ord: "added_within (<) s0 t" and srt: "sorted (map ?f (c @ x # rest))"
      and le: "\<forall>vg \<in> set (c @ x # rest). ?f vg < ?g vg" by (simp_all add: st)
    note step' = step [unfolded st st']
    have "added_within (<) s0 t'"
    proof -
      from overnight_body_effect [OF step'] consider "t' = t"
        | "c \<noteq> []" "created t t' (?f (hd c), ?g (last c), ''overnight'')"
        by blast
      then show ?thesis
      proof cases
        case 1
        with ord show ?thesis by simp
      next
        case 2
        from srt have sc: "sorted (map ?f c)" by (simp add: sorted_append)
        from le have lc: "\<forall>vg \<in> set c. ?f vg < ?g vg" by simp
        have "?f (hd c) < ?g (last c)"
          by (rule sorted_group_bounds [where R = "(<)" and f = ?f and g = ?g, OF sc 2(1) lc]) simp
        from created_added [OF 2(2) this ord] show ?thesis .
      qed
    qed
    moreover have "sorted (map ?f (c' @ rest))"
    proof -
      from sorted_map_suffix [OF srt] have "sorted (map ?f ([x] @ rest))" by simp
      with overnight_body_group [OF step'] srt show ?thesis by auto
    qed
    moreover from overnight_body_group [OF step'] le
    have "\<forall>vg \<in> set (c' @ rest). ?f vg < ?g vg" by fastforce
    ultimately show "?I rest st'" by (simp add: st')
  qed
  then show ?thesis by simp
qed

lemma distance_loop_added:
  assumes "for_each (distance_body float_add iter pl gap) xs ((cur, n), s) = Inr ((cur', n'), s')"
    and "added_within R s0 s"
    and "sorted (map start_time (cur @ xs))"
    and "\<forall>g \<in> set (cur @ xs). R (start_time g) (end_time g)"
    and mono: "\<And>a b c :: int. a \<le> b \<Longrightarrow> R b c \<Longrightarrow> R a c"
  shows "added_within R s0 s' \<and> sorted (map start_time cur') \<and>
     (\<forall>g \<in> set cur'. R (start_time g) (end_time g))"
proof -
  let ?I = "\<lambda>(xs :: TimelineSegment list) (st :: (TimelineSegment list \<times> nat) \<times> session).
      added_within R s0 (snd st) \<and> sorted (map start_time (fst (fst st) @ xs)) \<and>
      (\<forall>g \<in> set (fst (fst st) @ xs). R (start_time g) (end_time g))"
  have "?I [] ((cur', n'), s')"
  proof (rule for_each_rule [OF assms(1), where I = ?I])
    show "?I xs ((cur, n), s)" using assms(2-4) by simp
  next
    fix x rest st st'
    assume inv: "?I (x # rest) st" and step: "distance_body float_add iter pl gap x st = Inr st'"
    obtain c k t where st: "st = ((c, k), t)" by (cases st) auto
    obtain c' k' t' where st': "st' = ((c', k'), t')" by (cases st') auto
    from inv have ord: "added_within R s0 t" and srt: "sorted (map start_time (c @ x # rest))"
      and le: "\<forall>g \<in> set (c @ x # rest). R (start_time g) (end_time g)" by (simp_all add: st)
    note step' = step [unfolded st st']
    have "added_within R s0 t'"
    proof -
      from distance_body_effect [OF step'] consider "t' = t"
        | "c \<noteq> []" "created t t' (start_time (hd c), end_time (last c), ''distance_based'')"
        by blast
      then show ?thesis
      proof cases
        case 1
        with ord show ?thesis by simp
      next
        case 2
        from srt have sc: "sorted (map start_time c)" by (simp add: sorted_append)
        from le have lc: "\<forall>g \<in> set c. R (start_time g) (end_time g)" by simp
        have "R (start_time (hd c)) (end_time (last c))"
          by (rule sorted_group_bounds [where R = R and f = start_time and g = end_time,
                OF sc 2(1) lc]) (rule mono)
        from created_added [OF 2(2) this ord] show ?thesis .
      qed
    qed
    moreover have "sorted (map start_time (c' @ rest))"
    proof -
      from sorted_map_suffix [OF srt] have "sorted (map start_time ([x] @ rest))" by simp
      with distance_body_group [OF step'] srt show ?thesis by auto
    qed
    moreover from distance_body_group [OF step'] le
    have "\<forall>g \<in> set (c' @ rest). R (start_time g) (end_time g)" by auto
    ultimately show "?I rest st'" by (simp add: st')
  qed
  then show ?thesis by simp
qed

lemma overnight_visits_sorted:
  "sorted (map (\<lambda>vg. start_time (snd vg)) (overnight_visits st_distance rp profile sd ed))"
  by (simp add: overnight_visits_def overnight_query_def sorted_map_filter)

lemma overnight_visits_long:
  "vg \<in> set (overnight_visits st_distance rp profile sd ed) \<Longrightarrow>
   start_time (snd vg) < end_time (snd vg)"
  by (auto simp: overnight_visits_def overnight_query_def split: if_splits)

lemma memory_detector_added:
  assumes "detect_timeline_memory_trips rp sd ed s = Inr (n, s')"
    and "\<forall>g \<in> set (timeline_segments rp). R (start_time g) (end_time g)"
  shows "added_within R s s'"
proof -
  from assms(1) obtain k t where
    loop: "for_each (memory_body (places rp)) (memory_query rp sd ed) (0, s) = Inr (k, t)"
    and fin: "commit_count (places rp) k t = Inr (n, s')"
    by (auto simp: detect_timeline_memory_trips_def split: sum.splits)
  from assms(2)
  have "\<forall>mg \<in> set (memory_query rp sd ed). R (start_time (snd mg)) (end_time (snd mg))"
    by (auto dest: memory_query_segment)
  from memory_loop_added [OF loop added_within_refl this] have "added_within R s t" .
  with fin show ?thesis by (rule commit_count_added)
qed

lemma home_detector_ordered:
  assumes "detect_home_based_trips float_add st_distance iter rp sd ed km h s = Inr (n, s')"
  shows "added_within (\<le>) s s'"
proof (cases "no_home (user_profile rp)")
  case True
  with assms show ?thesis by (simp add: detect_home_based_trips_def added_within_refl)
next
  case False
  with assms obtain acc t where
    loop: "for_each (home_body float_add st_distance iter (places rp) (the (user_profile rp)) km h)
             (home_query rp sd ed) (home_init, s) = Inr (acc, t)"
    and fin: "commit_count (places rp) (home_trip_count acc) t = Inr (n, s')"
    by (auto simp: detect_home_based_trips_def split: sum.splits)
  have "sorted (map start_time (current_trip_segments home_init @ home_query rp sd ed))"
    by (simp add: home_init_def home_query_def)
  from home_loop_ordered [OF loop added_within_refl this] have "added_within (\<le>) s t" .
  with fin show ?thesis by (rule commit_count_added)
qed

lemma home_detector_strict:
  assumes "detect_home_based_trips float_add st_distance iter rp sd ed km h s = Inr (n, s')"
    and "0 < h"
  shows "added_within (<) s s'"
proof (cases "no_home (user_profile rp)")
  case True
  with assms show ?thesis by (simp add: detect_home_based_trips_def added_within_refl)
next
  case False
  with assms obtain acc t where
    loop: "for_each (home_body float_add st_distance iter (places rp) (the (user_profile rp)) km h)
             (home_query rp sd ed) (home_init, s) = Inr (acc, t)"
    and fin: "commit_count (places rp) (home_trip_count acc) t = Inr (n, s')"
    by (auto simp: detect_home_based_trips_def split: sum.splits)
  from home_loop_strict [OF loop added_within_refl assms(2)] have "added_within (<) s t" .
  with fin show ?thesis by (rule commit_count_added)
qed

lemma overnight_detector_strict:
  assumes "detect_overnight_trips float_add st_distance rp sd ed mn s = Inr (n, s')"
  shows "added_within (<) s s'"
proof (cases "no_home (user_profile rp)")
  case True
  with assms show ?thesis by (simp add: detect_overnight_trips_def added_within_refl)
next
  case False
  let ?xs = "overnight_visits st_distance rp (the (user_profile rp)) sd ed"
  from False assms obtain cur k t where
    loop: "for_each (overnight_body float_add (places rp) mn) ?xs (([], 0), s) = Inr ((cur, k), t)"
    and fin: "(if int (length cur) \<ge> mn then
                (case create_overnight_trip float_add (places rp) cur t of
                   Inl e \<Rightarrow> Inl e
                 | Inr t' \<Rightarrow> commit_count (places rp) (k + 1) t')
              else commit_count (places rp) k t) = Inr (n, s')"
    by (auto simp: detect_overnight_trips_def split: sum.splits)
  have srt: "sorted (map (\<lambda>vg. start_time (snd vg)) ([] @ ?xs))"
    by (simp add: overnight_visits_sorted)
  have lt: "\<forall>vg \<in> set ([] @ ?xs). start_time (snd vg) < end_time (snd vg)"
    by (auto dest!: overnight_visits_long)
  from overnight_loop_strict [OF loop added_within_refl srt lt]
  have t: "added_within (<) s t" and cs: "sorted (map (\<lambda>vg. start_time (snd vg)) cur)"
    and clt: "\<forall>vg \<in> set cur. start_time (snd vg) < end_time (snd vg)" by simp_all
  show ?thesis
  proof (cases "int (length cur) \<ge> mn")
    case no: False
    with fin t show ?thesis by (auto dest: commit_count_added)
  next
    case True
    with fin obtain t' where made: "create_overnight_trip float_add (places rp) cur t = Inr t'"
      and fin': "commit_count (places rp) (k + 1) t' = Inr (n, s')"
      by (auto split: sum.splits)
    have "added_within (<) s t'"
    proof -
      from create_overnight_trip_effect [OF made] consider "t' = t"
        | "cur \<noteq> []"
          "created t t' (start_time (snd (hd cur)), end_time (snd (last cur)), ''overnight'')"
        by blast
      then show ?thesis
      proof cases
        case 1
        with t show ?thesis by simp
      next
        case 2
        have "start_time (snd (hd cur)) < end_time (snd (last cur))"
          by (rule sorted_group_bounds [where R = "(<)" and f = "\<lambda>vg. start_time (snd vg)"
                and g = "\<lambda>vg. end_time (snd vg)", OF cs 2(1) clt]) simp
        from created_added [OF 2(2) this t] show ?thesis .
      qed
    qed
    with fin' show ?thesis by (rule commit_count_added)
  qed
qed

lemma distance_detector_added:
  assumes "detect_distance_based_trips float_add st_distance iter rp sd ed km gap s = Inr (n, s')"
    and seg: "\<forall>g \<in> set (timeline_segments rp). R (start_time g) (end_time g)"
    and mono: "\<And>a b c :: int. a \<le> b \<Longrightarrow> R b c \<Longrightarrow> R a c"
  shows "added_within R s s'"
proof (cases "user_profile rp")
  case None
  with assms(1) show ?thesis by (simp add: detect_distance_based_trips_def added_within_refl)
next
  case (Some profile)
  note profile = this
  show ?thesis
  proof (cases "home_location profile")
    case None
    with assms(1) profile show ?thesis
      by (simp add: detect_distance_based_trips_def added_within_refl)
  next
    case (Some home)
    let ?xs = "filter (is_far st_distance home km) (distance_query rp sd ed)"
    from Some profile assms(1) obtain cur k t where
      loop: "for_each (distance_body float_add iter (places rp) gap) ?xs (([], 0), s)
               = Inr ((cur, k), t)"
      and fin: "(if length cur \<ge> 2 then
                  (case create_clustered_trip float_add iter (places rp) cur t of
                     Inl e \<Rightarrow> Inl e
                   | Inr t' \<Rightarrow> commit_count (places rp) (k + 1) t')
                else commit_count (places rp) k t) = Inr (n, s')"
      by (auto simp: detect_distance_based_trips_def split: sum.splits)
    have srt: "sorted (map start_time ([] @ ?xs))"
      by (simp add: distance_query_def sorted_map_filter)
    from seg have le: "\<forall>g \<in> set ([] @ ?xs). R (start_time g) (end_time g)"
      by (auto simp: distance_query_def)
    from distance_loop_added [where R = R, OF loop added_within_refl srt le mono]
    have t: "added_within R s t" and cs: "sorted (map start_time cur)"
      and cle: "\<forall>g \<in> set cur. R (start_time g) (end_time g)" by simp_all
    show ?thesis
    proof (cases "length cur \<ge> 2")
      case no: False
      with fin t show ?thesis by (auto dest: commit_count_added)
    next
      case True
      with fin obtain t' where
        made: "create_clustered_trip float_add iter (places rp) cur t = Inr t'"
        and fin': "commit_count (places rp) (k + 1) t' = Inr (n, s')"
        by (auto split: sum.splits)
      have "added_within R s t'"
      proof -
        from create_clustered_trip_effect [OF made] consider "t' = t"
          | "cur \<noteq> []" "created t t' (start_time (hd cur), end_time (last cur), ''distance_based'')"
          by blast
        then show ?thesis
        proof cases
          case 1
          with t show ?thesis by simp
        next
          case 2
          have "R (start_time (hd cur)) (end_time (last cur))"
            by (rule sorted_group_bounds [where R = R and f = start_time and g = end_time,
                  OF cs 2(1) cle]) (rule mono)
          from created_added [OF 2(2) this t] show ?thesis .
        qed
      qed
      with fin' show ?thesis by (rule commit_count_added)
    qed
  qed
qed

text \<open>
  C9 (amended). Every trip the overnight detector creates has its end time after its start
  time, whatever the repository holds (a candidate night lasts at least six hours). Every
  trip the home-based detector creates has its end time no earlier than its start time, and
  after it when \<open>min_duration_hours\<close> is positive. A trip the memory detector or the
  distance-based detector creates has its end time after its start time when every segment
  of the repository ends after it starts, and no earlier than its start time when every
  segment ends no earlier than it starts. Nothing in the engine compares the two bounds of
  a trip, so a memory segment whose end equals its start yields a trip with equal bounds.
\<close>

theorem created_trip_bounds:
  "(detect_overnight_trips float_add st_distance rp sd ed min_nights s = Inr (n, s')
      \<longrightarrow> end_after_start (created_trips s s')) \<and>
   (detect_home_based_trips float_add st_distance iter rp sd ed km h s = Inr (n, s')
      \<longrightarrow> end_not_before_start (created_trips s s') \<and>
          (0 < h \<longrightarrow> end_after_start (created_trips s s'))) \<and>
   (detect_timeline_memory_trips rp sd ed s = Inr (n, s')
      \<longrightarrow> (segments_strict rp \<longrightarrow> end_after_start (created_trips s s')) \<and>
          (segments_ordered rp \<longrightarrow> end_not_before_start (created_trips s s'))) \<and>
   (detect_distance_based_trips float_add st_distance iter rp sd ed km gap s = Inr (n, s')
      \<longrightarrow> (segments_strict rp \<longrightarrow> end_after_start (created_trips s s')) \<and>
          (segments_ordered rp \<longrightarrow> end_not_before_start (created_trips s s')))"
proof (intro conjI impI)
  assume "detect_overnight_trips float_add st_distance rp sd ed min_nights s = Inr (n, s')"
  then show "end_after_start (created_trips s s')"
    by (rule added_within_strict [OF overnight_detector_strict])
next
  assume "detect_home_based_trips float_add st_distance iter rp sd ed km h s = Inr (n, s')"
  then show "end_not_before_start (created_trips s s')"
    by (rule added_within_ordered [OF home_detector_ordered])
next
  assume "detect_home_based_trips float_add st_distance iter rp sd ed km h s = Inr (n, s')"
    and "0 < h"
  then show "end_after_start (created_trips s s')"
    by (rule added_within_strict [OF home_detector_strict])
next
  assume run: "detect_timeline_memory_trips rp sd ed s = Inr (n, s')" and "segments_strict rp"
  then have "\<forall>g \<in> set (timeline_segments rp). start_time g < end_time g"
    by (simp add: segments_strict_def list_all_iff)
  from memory_detector_added [OF run this] show "end_after_start (created_trips s s')"
    by (rule added_within_strict)
next
  assume run: "detect_timeline_memory_trips rp sd ed s = Inr (n, s')" and "segments_ordered rp"
  then have "\<forall>g \<in> set (timeline_segments rp). start_time g \<le> end_time g"
    by (simp add: segments_ordered_def list_all_iff)
  from memory_detector_added [OF run this] show "end_not_before_start (created_trips s s')"
    by (rule added_within_ordered)
next
  assume run: "detect_distance_based_trips float_add st_distance iter rp sd ed km gap s = Inr (n, s')"
    and "segments_strict rp"
  then have "\<forall>g \<in> set (timeline_segments rp). start_time g < end_time g"
    by (simp add: segments_strict_def list_all_iff)
  from distance_detector_added [where R = "(<)", OF run this]
  show "end_after_start (created_trips s s')"
    by (intro added_within_strict) simp
next
  assume run: "detect_distance_based_trips float_add st_distance iter rp sd ed km gap s = Inr (n, s')"
    and "segments_ordered rp"
  then have "\<forall>g \<in> set (timeline_segments rp). start_time g \<le> end_time g"
    by (simp add: segments_ordered_def list_all_iff)
  from distance_detector_added [where R = "(\<le>)", OF run this]
  show "end_not_before_start (created_trips s s')"
    by (intro added_within_ordered) simp
qed

lemma instant_memory_run:
  "detect_timeline_memory_trips instant_memory None None empty_session = Inr (1, instant_memory_store)"
  by (simp add: detect_timeline_memory_trips_def instant_memory_def memory_query_def in_range_def
      memory_segment_def memory_body_def find_existing_def empty_session_def
      add_trip_and_flush_def flush_def add_all_def destination_rows_def date_of_def
      commit_count_def commit_def instant_memory_store_def)

text \<open>
  C9 as stated fails. A memory segment from 1000 to 1000 (end equal to start, as the segment model allows) is
  promoted to a trip whose end time equals its start time.
\<close>

theorem trip_end_after_start_counterexample:
  "start_time (memory_segment 1 1000 1000 None []) \<le> end_time (memory_segment 1 1000 1000 None []) \<and>
   detect_timeline_memory_trips instant_memory None None empty_session = Inr (1, instant_memory_store) \<and>
   map (\<lambda>t. (trip_start_time t, trip_end_time t)) (trips instant_memory_store) = [(1000, 1000)]"
  by (simp add: instant_memory_run) (simp add: memory_segment_def instant_memory_store_def)


lemma home_at_once_run:
  "detect_home_based_trips (+) grid_distance rev home_at_once None None 0 0 empty_session
     = Inr (1, home_at_once_store)"
  by (simp add: detect_home_based_trips_def home_at_once_def no_home_def home_by_id_def truthy_def
      home_query_def in_range_def visit_segment_def home_body_def is_home_def
      use_distance_based_def home_init_def home_append_def set_add_def home_reset_def
      create_trip_def find_existing_def empty_session_def add_trip_and_flush_def flush_def
      add_all_def destination_rows_def segment_rows_def date_of_def primary_mode_of_def
      commit_count_def commit_def home_at_once_store_def)

theorem created_trip_bounds_witness:
  "detect_overnight_trips (+) grid_distance two_nights_two_places None None 1 empty_session
     = Inr (1, two_nights_store) \<and>
   end_after_start (created_trips empty_session two_nights_store) \<and>
   detect_home_based_trips (+) grid_distance rev there_and_back None None 50 4 empty_session
     = Inr (1, there_and_back_store) \<and>
   end_after_start (created_trips empty_session there_and_back_store) \<and>
   detect_home_based_trips (+) grid_distance rev home_at_once None None 0 0 empty_session
     = Inr (1, home_at_once_store) \<and>
   segments_strict home_at_once \<and>
   end_not_before_start (created_trips empty_session home_at_once_store) \<and>
   \<not> end_after_start (created_trips empty_session home_at_once_store) \<and>
   segments_strict one_memory \<and>
   detect_timeline_memory_trips one_memory None None empty_session = Inr (1, one_memory_store) \<and>
   end_after_start (created_trips empty_session one_memory_store) \<and>
   segments_ordered instant_memory \<and> \<not> segments_strict instant_memory \<and>
   detect_timeline_memory_trips instant_memory None None empty_session
     = Inr (1, instant_memory_store) \<and>
   end_not_before_start (created_trips empty_session instant_memory_store) \<and>
   \<not> end_after_start (created_trips empty_session instant_memory_store) \<and>
   segments_strict far_away \<and> segments_ordered far_away \<and>
   detect_distance_based_trips (+) grid_distance rev far_away None None 100 6 empty_session
     = Inr (1, far_away_store) \<and>
   end_after_start (created_trips empty_session far_away_store) \<and>
   end_not_before_start (created_trips empty_session far_away_store) \<and>
   created_trips empty_session two_nights_store = trips two_nights_store \<and>
   created_trips empty_session there_and_back_store = trips there_and_back_store \<and>
   created_trips empty_session home_at_once_store = trips home_at_once_store \<and>
   created_trips empty_session one_memory_store = trips one_memory_store \<and>
   created_trips empty_session instant_memory_store = trips instant_memory_store \<and>
   created_trips empty_session far_away_store = trips far_away_store"
proof -
  have s1: "segments_strict one_memory"
    by (simp add: segments_strict_def one_memory_def memory_segment_def)
  have s2: "segments_ordered instant_memory" "\<not> segments_strict instant_memory"
    by (simp_all add: segments_ordered_def segments_strict_def instant_memory_def memory_segment_def)
  have s3: "segments_strict far_away" "segments_ordered far_away"
    by (simp_all add: segments_strict_def segments_ordered_def far_away_def visit_segment_def)
  have s4: "segments_strict home_at_once"
    by (simp add: segments_strict_def home_at_once_def visit_segment_def)
  have h: "(0 :: real) < 4" by simp
  note o = created_trip_bounds [where float_add = "(+)" and st_distance = grid_distance
      and rp = two_nights_two_places and sd = None and ed = None and min_nights = 1
      and s = empty_session and n = 1 and s' = two_nights_store,
      THEN conjunct1, rule_format, OF two_nights_two_places_run]
  note hb = created_trip_bounds [where float_add = "(+)" and st_distance = grid_distance
      and iter = rev and rp = there_and_back and sd = None and ed = None and km = 50 and h = 4
      and s = empty_session and n = 1 and s' = there_and_back_store,
      THEN conjunct2, THEN conjunct1, rule_format, OF there_and_back_run]
  note hz = created_trip_bounds [where float_add = "(+)" and st_distance = grid_distance
      and iter = rev and rp = home_at_once and sd = None and ed = None and km = 0 and h = 0
      and s = empty_session and n = 1 and s' = home_at_once_store,
      THEN conjunct2, THEN conjunct1, rule_format, OF home_at_once_run]
  note m1 = created_trip_bounds [where rp = one_memory and sd = None and ed = None
      and s = empty_session and n = 1 and s' = one_memory_store,
      THEN conjunct2, THEN conjunct2, THEN conjunct1, rule_format, OF one_memory_first_run]
  note m2 = created_trip_bounds [where rp = instant_memory and sd = None and ed = None
      and s = empty_session and n = 1 and s' = instant_memory_store,
      THEN conjunct2, THEN conjunct2, THEN conjunct1, rule_format, OF instant_memory_run]
  note d = created_trip_bounds [where float_add = "(+)" and st_distance = grid_distance
      and iter = rev and rp = far_away and sd = None and ed = None and km = 100 and gap = 6
      and s = empty_session and n = 1 and s' = far_away_store,
      THEN conjunct2, THEN conjunct2, THEN conjunct2, rule_format, OF far_away_run]
  have c: "created_trips empty_session two_nights_store = trips two_nights_store"
    "created_trips empty_session there_and_back_store = trips there_and_back_store"
    "created_trips empty_session home_at_once_store = trips home_at_once_store"
    "created_trips empty_session one_memory_store = trips one_memory_store"
    "created_trips empty_session instant_memory_store = trips instant_memory_store"
    "created_trips empty_session far_away_store = trips far_away_store"
    by (simp_all add: created_trips_def empty_session_def)
  have n1: "\<not> end_after_start (created_trips empty_session home_at_once_store)"
    unfolding c by (simp add: end_after_start_def home_at_once_store_def)
  have n2: "\<not> end_after_start (created_trips empty_session instant_memory_store)"
    unfolding c by (simp add: end_after_start_def instant_memory_store_def)
  from o hb [THEN conjunct1] hb [THEN conjunct2, rule_format, OF h] hz [THEN conjunct1]
    m1 [THEN conjunct1, rule_format, OF s1] m2 [THEN conjunct2, rule_format, OF s2(1)]
    d [THEN conjunct1, rule_format, OF s3(1)] d [THEN conjunct2, rule_format, OF s3(2)]
    s1 s2 s3 s4 c n1 n2
    two_nights_two_places_run there_and_back_run home_at_once_run one_memory_first_run
    instant_memory_run far_away_run
  show ?thesis by simp
qed

end
